theory Spec2Isabelle
  imports Main "HOL-Library.Sublist" "HOL-Library.Multiset"
begin

section \<open>Go values and the standard-library functions the programs call\<close>

text \<open>
  The repository is three stand-alone Go programs (github.go, gitlab.go, bitbucket.go).
  A Go \<open>string\<close> is a byte sequence, modelled as \<open>string\<close> (a list of 8-bit characters).
  A run either returns, panics (an index or slice out of range, \<open>regexp.MustCompile\<close> on a
  bad expression) or leaves through \<open>os.Exit\<close>; a result that may panic is an \<open>option\<close>
  with \<open>None\<close> for the panic.
\<close>

datatype exit = Returned | Panicked | Exited int

text \<open>\<open>s[i:]\<close> and \<open>xs[i]\<close> of Go: both panic out of range.\<close>

definition slice_from :: "'a list \<Rightarrow> int \<Rightarrow> 'a list option" where
  "slice_from s i = (if 0 \<le> i \<and> i \<le> int (length s) then Some (drop (nat i) s) else None)"

definition index :: "'a list \<Rightarrow> nat \<Rightarrow> 'a option" where
  "index xs i = (if i < length xs then Some (xs ! i) else None)"

text \<open>
  \<open>strings.Contains\<close>, \<open>strings.Index\<close>, \<open>strings.LastIndex\<close>, \<open>strings.TrimSuffix\<close> and
  \<open>strings.SplitN\<close> (for a separator that is not empty, the only use the programs make of it),
  written out on byte sequences.
\<close>

definition occurs_at :: "string \<Rightarrow> string \<Rightarrow> nat \<Rightarrow> bool" where
  "occurs_at s substr i = (take (length substr) (drop i s) = substr)"

definition Contains :: "string \<Rightarrow> string \<Rightarrow> bool" where
  "Contains s substr = list_ex (occurs_at s substr) [0..<Suc (length s)]"

definition Index :: "string \<Rightarrow> string \<Rightarrow> int" where
  "Index s substr =
     (case filter (occurs_at s substr) [0..<Suc (length s)] of
        [] \<Rightarrow> - 1
      | i # _ \<Rightarrow> int i)"

definition LastIndex :: "string \<Rightarrow> string \<Rightarrow> int" where
  "LastIndex s substr =
     (case filter (occurs_at s substr) (rev [0..<Suc (length s)]) of
        [] \<Rightarrow> - 1
      | i # _ \<Rightarrow> int i)"

definition TrimSuffix :: "string \<Rightarrow> string \<Rightarrow> string" where
  "TrimSuffix s suf =
     (if length suf \<le> length s \<and> drop (length s - length suf) s = suf
      then take (length s - length suf) s else s)"

fun SplitN :: "string \<Rightarrow> string \<Rightarrow> nat \<Rightarrow> string list" where
  "SplitN s sep 0 = []"
| "SplitN s sep (Suc 0) = [s]"
| "SplitN s sep (Suc (Suc n)) =
     (let i = Index s sep in
      if i < 0 then [s]
      else take (nat i) s # SplitN (drop (nat i + length sep) s) sep (Suc n))"

text \<open>
  The library functions whose behaviour is not written out are parameters of the model:
  the regular-expression engine (\<open>regexp.MustCompile\<close>, which panics on an expression that
  does not compile, and \<open>Regexp.MatchString\<close>), \<open>mail.ParseAddress\<close> (the \<open>Address\<close> field of
  its result, \<open>None\<close> for an error), \<open>publicsuffix.PublicSuffix\<close>, \<open>url.Parse\<close> (whether it
  returns no error), \<open>time.Parse\<close> with \<open>time.RFC3339\<close> followed by \<open>Format\<close> (\<open>None\<close> when
  the parse fails) and \<open>strings.TrimSpace\<close>. The type \<open>'r\<close> is the compiled expression.
\<close>

record 'r golib =
  MustCompile :: "string \<Rightarrow> 'r option"
  MatchString :: "'r \<Rightarrow> string \<Rightarrow> bool"
  ParseAddress :: "string \<Rightarrow> string option"
  PublicSuffix :: "string \<Rightarrow> string \<times> bool"
  url_Parse :: "string \<Rightarrow> bool"
  time_Reformat :: "string \<Rightarrow> string option"
  TrimSpace :: "string \<Rightarrow> string"

section \<open>Configuration\<close>

record Pattern =
  ID :: string
  Regex :: string

record Config =
  OperatingSystems :: "Pattern list"
  Utilities :: "Pattern list"

section \<open>Signature matcher, blacklist and e-mail validator (the same in the three programs)\<close>

text \<open>
  \<open>SearchPatterns\<close>: the loop over \<open>patterns\<close> with its accumulator \<open>matches\<close>; each pattern
  is compiled when the loop reaches it.
\<close>

fun SearchPatterns_loop :: "'r golib \<Rightarrow> string \<Rightarrow> Pattern list \<Rightarrow> string list \<Rightarrow> string list option" where
  "SearchPatterns_loop L text [] matches = Some matches"
| "SearchPatterns_loop L text (pat # pats) matches =
     (case MustCompile L (Regex pat) of
        None \<Rightarrow> None
      | Some re \<Rightarrow>
          SearchPatterns_loop L text pats
            (if MatchString L re text then matches @ [ID pat] else matches))"

definition SearchPatterns :: "'r golib \<Rightarrow> string \<Rightarrow> Pattern list \<Rightarrow> string list option" where
  "SearchPatterns L text patterns = SearchPatterns_loop L text patterns []"

fun IsBlacklisted :: "'r golib \<Rightarrow> string \<Rightarrow> 'r list \<Rightarrow> bool" where
  "IsBlacklisted L email [] = False"
| "IsBlacklisted L email (re # blacklist) =
     (if MatchString L re email then True else IsBlacklisted L email blacklist)"

definition IsValidEmail :: "'r golib \<Rightarrow> string \<Rightarrow> bool option" where
  "IsValidEmail L addr =
     (if \<not> Contains addr ''@'' then Some False
      else case ParseAddress L addr of
        None \<Rightarrow> Some False
      | Some address \<Rightarrow>
          (let at = LastIndex address ''@'' in
           if at < 0 then Some False
           else case slice_from address (at + 1) of
             None \<Rightarrow> None
           | Some domain \<Rightarrow>
               if \<not> Contains domain ''.'' then Some False
               else (case PublicSuffix L domain of
                 (eTLD, icann) \<Rightarrow>
                   if eTLD = '''' \<or> \<not> icann then Some False
                   else if \<not> url_Parse L (''http://'' @ domain) then Some False
                   else Some True)))"

section \<open>Console output and HTTP\<close>

text \<open>
  What a run does is recorded as a list of events, in order: \<open>Request url\<close> for every GET that
  \<open>makeRequest\<close> issues, \<open>Finding k lines\<close> for every block of \<open>Printf\<close> calls that reports a
  finding (the label and the value of each printed line, in print order; \<open>k\<close> tells which of
  the three blocks of \<open>ProcessCommits\<close> printed it), and \<open>Line s\<close> for any other console line.
\<close>

datatype kind = EmailFinding | SystemFinding | UtilityFinding

datatype event =
    Request string
  | Finding kind "(string \<times> string) list"
  | Line string

text \<open>
  A program fragment yields its events and how it ended; \<open>seq\<close> runs a second fragment after
  a first one that returned, and \<open>seq_opt\<close> does the same for fragments that may never end
  (\<open>None\<close>).
\<close>

definition seq :: "event list \<times> exit \<Rightarrow> event list \<times> exit \<Rightarrow> event list \<times> exit" where
  "seq p q = (case p of (out, Returned) \<Rightarrow> (out @ fst q, snd q) | (out, st) \<Rightarrow> (out, st))"

definition seq_opt :: "(event list \<times> exit) option \<Rightarrow> (event list \<times> exit) option \<Rightarrow> (event list \<times> exit) option" where
  "seq_opt p q =
     (case p of
        None \<Rightarrow> None
      | Some (out, Returned) \<Rightarrow> (case q of None \<Rightarrow> None | Some r \<Rightarrow> Some (out @ fst r, snd r))
      | Some (out, st) \<Rightarrow> Some (out, st))"

text \<open>
  \<open>makeRequest\<close> returns \<open>(body, status, err)\<close>: the server is a function from the URL to a
  transport error or to a body with its status. \<open>json.Unmarshal\<close> is a parameter that returns
  the error text (\<open>Inl\<close>) or the decoded value. \<open>%d\<close> of \<open>fmt.Sprintf\<close> is \<open>Itoa\<close>.
\<close>

datatype response = TransportError string | Response string int

fun digits :: "nat \<Rightarrow> string" where
  "digits n = (if n < 10 then [char_of (48 + n)] else digits (n div 10) @ [char_of (48 + n mod 10)])"

definition Itoa :: "int \<Rightarrow> string" where
  "Itoa i = (if i < 0 then ''-'' @ digits (nat (- i)) else digits (nat i))"

definition newline :: string where
  "newline = [char_of (10 :: nat)]"

text \<open>
  \<open>commitDate\<close> of the three \<open>ProcessCommits\<close>: the date reformatted when it parses as
  RFC 3339, the raw string otherwise. \<open>signatures\<close> is one \<open>for _, m := range SearchPatterns(...)\<close>
  loop: the matcher runs to its end (or panics) before the first block is printed.
\<close>

definition commitDate :: "'r golib \<Rightarrow> string \<Rightarrow> string" where
  "commitDate L raw = (case time_Reformat L raw of Some formatted \<Rightarrow> formatted | None \<Rightarrow> raw)"

definition signatures :: "'r golib \<Rightarrow> string \<Rightarrow> Pattern list \<Rightarrow> (string \<Rightarrow> event) \<Rightarrow> event list \<times> exit" where
  "signatures L text patterns block =
     (case SearchPatterns L text patterns of
        None \<Rightarrow> ([], Panicked)
      | Some ms \<Rightarrow> (map block ms, Returned))"

text \<open>
  The loop that reverses \<open>allCommits\<close> in place (gitlab.go and bitbucket.go):
  \<open>for i, j := 0, len(allCommits)-1; i < j; i, j = i+1, j-1\<close>, swapping the two elements.
\<close>

function reverse_loop :: "'a list \<Rightarrow> int \<Rightarrow> int \<Rightarrow> 'a list option" where
  "reverse_loop xs i j =
     (if i < j then
        (if 0 \<le> i \<and> j < int (length xs)
         then reverse_loop (xs[nat i := xs ! nat j, nat j := xs ! nat i]) (i + 1) (j - 1)
         else None)
      else Some xs)"
  by pat_completeness auto
termination
  by (relation "measure (\<lambda>(xs, i, j). nat (j - i))") auto

definition reverse_in_place :: "'a list \<Rightarrow> 'a list option" where
  "reverse_in_place xs = reverse_loop xs 0 (int (length xs) - 1)"

section \<open>github.go\<close>

record GitUser =
  Name :: string
  Email :: string
  Date :: string

record CommitInfo =
  Author :: GitUser
  Committer :: GitUser
  Message :: string

record CommitItem =
  SHA :: string
  HTMLURL :: string
  Commit :: CommitInfo

record Repo =
  repo_Name :: string
  FullName :: string
  Fork :: bool

record github_world =
  gh_http :: "string \<Rightarrow> response"
  gh_json_Marshal :: "CommitItem \<Rightarrow> string"
  gh_Unmarshal_search :: "string \<Rightarrow> string + CommitItem list"
  gh_Unmarshal_commits :: "string \<Rightarrow> string + CommitItem list"
  gh_Unmarshal_repos :: "string \<Rightarrow> string + Repo list"

text \<open>
  \<open>ProcessCommits\<close>: \<open>github_emails\<close> is the inner loop over the author and the committer,
  \<open>github_processCommit\<close> the body of the loop over \<open>items\<close>. \<open>json_Marshal\<close> stands for
  \<open>json.Marshal\<close> on a \<open>CommitItem\<close>.
\<close>

fun github_emails :: "'r golib \<Rightarrow> 'r list \<Rightarrow> string \<Rightarrow> string \<Rightarrow> (string \<times> string) list \<Rightarrow> event list \<times> exit" where
  "github_emails L blacklist date url [] = ([], Returned)"
| "github_emails L blacklist date url ((who_Name, who_Email) # rest) =
     (case IsValidEmail L who_Email of
        None \<Rightarrow> ([], Panicked)
      | Some valid \<Rightarrow>
          seq (if valid \<and> \<not> IsBlacklisted L who_Email blacklist
               then [Finding EmailFinding [(''Email'', who_Email), (''Name'', who_Name),
                                    (''Date'', date), (''Location'', url)]]
               else [], Returned)
              (github_emails L blacklist date url rest))"

definition github_identities :: "CommitItem \<Rightarrow> (string \<times> string) list" where
  "github_identities c =
     [(Name (Author (Commit c)), Email (Author (Commit c))),
      (Name (Committer (Commit c)), Email (Committer (Commit c)))]"

definition github_processCommit :: "'r golib \<Rightarrow> (CommitItem \<Rightarrow> string) \<Rightarrow> Config \<Rightarrow> 'r list \<Rightarrow> CommitItem \<Rightarrow> event list \<times> exit" where
  "github_processCommit L json_Marshal cfg blacklist c =
     (let commitText = json_Marshal c;
          date = commitDate L (Date (Author (Commit c)))
      in seq (github_emails L blacklist date (HTMLURL c) (github_identities c))
        (seq (signatures L commitText (OperatingSystems cfg)
                (\<lambda>m. Finding SystemFinding
                   [(''Operating System(s)'', m), (''Email'', Email (Author (Commit c))),
                    (''Date'', date), (''Location'', HTMLURL c)]))
             (signatures L commitText (Utilities cfg)
                (\<lambda>m. Finding UtilityFinding
                   [(''Detected Utility'', m), (''Committer'', Email (Author (Commit c))),
                    (''Date'', date), (''Location'', HTMLURL c)]))))"

fun github_ProcessCommits :: "'r golib \<Rightarrow> (CommitItem \<Rightarrow> string) \<Rightarrow> CommitItem list \<Rightarrow> Config \<Rightarrow> 'r list \<Rightarrow> event list \<times> exit" where
  "github_ProcessCommits L json_Marshal [] cfg blacklist = ([], Returned)"
| "github_ProcessCommits L json_Marshal (c # items) cfg blacklist =
     seq (github_processCommit L json_Marshal cfg blacklist c)
         (github_ProcessCommits L json_Marshal items cfg blacklist)"

text \<open>
  \<open>ScanGlobalCommits\<close>, \<open>GetUserRepos\<close> and \<open>ScanRepoCommits\<close>: each \<open>for\<close> loop is a recursive
  function of the page number, with the events so far as an accumulator. A loop that the
  server never lets end has no result (\<open>None\<close>).
\<close>

definition search_url :: "string \<Rightarrow> string \<Rightarrow> nat \<Rightarrow> string" where
  "search_url username order page =
     ''https://api.github.com/search/commits?q=author:'' @ username @
     ''&sort=author-date&order='' @ order @ ''&per_page=100&page='' @ Itoa (int page)"

definition repos_url :: "string \<Rightarrow> nat \<Rightarrow> string" where
  "repos_url username page =
     ''https://api.github.com/users/'' @ username @ ''/repos?per_page=100&page='' @ Itoa (int page)"

definition repo_commits_url :: "string \<Rightarrow> nat \<Rightarrow> string" where
  "repo_commits_url repoFullName page =
     ''https://api.github.com/repos/'' @ repoFullName @ ''/commits?per_page=100&page='' @ Itoa (int page)"

partial_function (option) ScanGlobalCommits_loop ::
  "'r golib \<Rightarrow> github_world \<Rightarrow> string \<Rightarrow> Config \<Rightarrow> 'r list \<Rightarrow> string \<Rightarrow> nat \<Rightarrow> event list \<Rightarrow> (event list \<times> exit) option" where
  "ScanGlobalCommits_loop L W username cfg blacklist order page out =
     (let url = search_url username order page in
      case gh_http W url of
        TransportError msg \<Rightarrow> Some (out @ [Request url, Line (''Error: '' @ msg)], Returned)
      | Response body status \<Rightarrow>
          if status \<noteq> 200 then
            (if status = 422
             then Some (out @ [Request url, Line ''Reached 1000-result limit for search API.''], Returned)
             else Some (out @ [Request url, Line (''GitHub API error '' @ Itoa status @ newline @ body)], Returned))
          else (case gh_Unmarshal_search W body of
            Inl msg \<Rightarrow> Some (out @ [Request url, Line (''Error parsing response: '' @ msg)], Returned)
          | Inr items \<Rightarrow>
              if items = [] then Some (out @ [Request url], Returned)
              else (case github_ProcessCommits L (gh_json_Marshal W) items cfg blacklist of
                (evs, st) \<Rightarrow>
                  if st = Returned
                  then ScanGlobalCommits_loop L W username cfg blacklist order (Suc page) (out @ Request url # evs)
                  else Some (out @ Request url # evs, st))))"

definition ScanGlobalCommits :: "'r golib \<Rightarrow> github_world \<Rightarrow> string \<Rightarrow> Config \<Rightarrow> 'r list \<Rightarrow> bool \<Rightarrow> (event list \<times> exit) option" where
  "ScanGlobalCommits L W username cfg blacklist ascending =
     ScanGlobalCommits_loop L W username cfg blacklist (if \<not> ascending then ''desc'' else ''asc'') 1 []"

partial_function (option) GetUserRepos_loop ::
  "github_world \<Rightarrow> string \<Rightarrow> nat \<Rightarrow> Repo list \<Rightarrow> event list \<Rightarrow> (event list \<times> (string + Repo list)) option" where
  "GetUserRepos_loop W username page repos out =
     (let url = repos_url username page in
      case gh_http W url of
        TransportError msg \<Rightarrow> Some (out @ [Request url], Inl msg)
      | Response body status \<Rightarrow>
          if status \<noteq> 200
          then Some (out @ [Request url], Inl (''GitHub API error '' @ Itoa status @ newline @ body))
          else (case gh_Unmarshal_repos W body of
            Inl msg \<Rightarrow> Some (out @ [Request url], Inl msg)
          | Inr tmp \<Rightarrow>
              if tmp = [] then Some (out @ [Request url], Inr repos)
              else GetUserRepos_loop W username (Suc page) (repos @ tmp) (out @ [Request url])))"

definition GetUserRepos :: "github_world \<Rightarrow> string \<Rightarrow> (event list \<times> (string + Repo list)) option" where
  "GetUserRepos W username = GetUserRepos_loop W username 1 [] []"

partial_function (option) ScanRepoCommits_loop ::
  "'r golib \<Rightarrow> github_world \<Rightarrow> string \<Rightarrow> Config \<Rightarrow> 'r list \<Rightarrow> nat \<Rightarrow> event list \<Rightarrow> (event list \<times> exit) option" where
  "ScanRepoCommits_loop L W repoFullName cfg blacklist page out =
     (let url = repo_commits_url repoFullName page in
      case gh_http W url of
        TransportError msg \<Rightarrow> Some (out @ [Request url, Line (''Error: '' @ msg)], Returned)
      | Response body status \<Rightarrow>
          if status \<noteq> 200
          then Some (out @ [Request url, Line (''GitHub API error '' @ Itoa status @ newline @ body)], Returned)
          else (case gh_Unmarshal_commits W body of
            Inl msg \<Rightarrow> Some (out @ [Request url, Line (''Error parsing response: '' @ msg)], Returned)
          | Inr commits \<Rightarrow>
              if commits = [] then Some (out @ [Request url], Returned)
              else (case github_ProcessCommits L (gh_json_Marshal W) commits cfg blacklist of
                (evs, st) \<Rightarrow>
                  if st = Returned
                  then ScanRepoCommits_loop L W repoFullName cfg blacklist (Suc page) (out @ Request url # evs)
                  else Some (out @ Request url # evs, st))))"

definition ScanRepoCommits :: "'r golib \<Rightarrow> github_world \<Rightarrow> string \<Rightarrow> Config \<Rightarrow> 'r list \<Rightarrow> (event list \<times> exit) option" where
  "ScanRepoCommits L W repoFullName cfg blacklist = ScanRepoCommits_loop L W repoFullName cfg blacklist 1 []"

text \<open>
  \<open>main\<close>, from the line that announces the scan: the configuration, the blacklist and the
  user name are its inputs (loading them is not modelled). \<open>github_scan_repos\<close> is the
  loop over \<open>repos\<close> at the end of \<open>main\<close>, \<open>github_per_repo_pass\<close> the third part of \<open>main\<close>
  (\<open>// 3. Repo-by-repo scanning\<close>).
\<close>

fun github_scan_repos :: "'r golib \<Rightarrow> github_world \<Rightarrow> Repo list \<Rightarrow> Config \<Rightarrow> 'r list \<Rightarrow> (event list \<times> exit) option" where
  "github_scan_repos L W [] cfg blacklist = Some ([], Returned)"
| "github_scan_repos L W (r # repos) cfg blacklist =
     (if Fork r then github_scan_repos L W repos cfg blacklist
      else seq_opt (Some ([Line (''Scanning repo: '' @ FullName r)], Returned))
          (seq_opt (ScanRepoCommits L W (FullName r) cfg blacklist)
                   (github_scan_repos L W repos cfg blacklist)))"

definition github_per_repo_pass :: "'r golib \<Rightarrow> github_world \<Rightarrow> string \<Rightarrow> Config \<Rightarrow> 'r list \<Rightarrow> (event list \<times> exit) option" where
  "github_per_repo_pass L W username cfg blacklist =
     seq_opt (Some ([Line ''=== Per-repo scan (all commits) ===''], Returned))
       (case GetUserRepos W username of
          None \<Rightarrow> None
        | Some (evs, Inl msg) \<Rightarrow> Some (evs @ [Line (''Error fetching repos: '' @ msg)], Exited 1)
        | Some (evs, Inr repos) \<Rightarrow>
            seq_opt (Some (evs, Returned)) (github_scan_repos L W repos cfg blacklist))"

definition github_main :: "'r golib \<Rightarrow> github_world \<Rightarrow> string \<Rightarrow> Config \<Rightarrow> 'r list \<Rightarrow> (event list \<times> exit) option" where
  "github_main L W username cfg blacklist =
     seq_opt (Some ([Line (''Scanning commits for user: '' @ username @ newline),
                     Line ''=== First 1000 commits (oldest) ===''], Returned))
    (seq_opt (ScanGlobalCommits L W username cfg blacklist True)
    (seq_opt (Some ([Line ''=== Last 1000 commits (newest) ===''], Returned))
    (seq_opt (ScanGlobalCommits L W username cfg blacklist False)
             (github_per_repo_pass L W username cfg blacklist))))"

section \<open>gitlab.go\<close>

record GitLabCommit =
  commit_ID :: string
  ShortID :: string
  Title :: string
  AuthorName :: string
  AuthorEmail :: string
  AuthoredDate :: string
  commit_WebURL :: string

text \<open>\<open>ForkedFromProject\<close> is a pointer: \<open>None\<close> is \<open>nil\<close>, \<open>Some id\<close> the parent's ID.\<close>

record GitLabProject =
  project_ID :: int
  project_Name :: string
  Path :: string
  WebURL :: string
  ForkedFromProject :: "int option"

record GitLabUser =
  user_ID :: int
  Username :: string
  user_Name :: string

record gitlab_world =
  gl_http :: "string \<Rightarrow> response"
  gl_Unmarshal_users :: "string \<Rightarrow> string + GitLabUser list"
  gl_Unmarshal_projects :: "string \<Rightarrow> string + GitLabProject list"
  gl_Unmarshal_commits :: "string \<Rightarrow> string + GitLabCommit list"

text \<open>
  \<open>email_finding\<close> is the statement
  \<open>if IsValidEmail(email) && !IsBlacklisted(email, blacklist) { ... }\<close> of gitlab.go and
  bitbucket.go, with the block it prints.
\<close>

definition email_finding :: "'r golib \<Rightarrow> 'r list \<Rightarrow> string \<Rightarrow> event \<Rightarrow> event list \<times> exit" where
  "email_finding L blacklist email block =
     (case IsValidEmail L email of
        None \<Rightarrow> ([], Panicked)
      | Some valid \<Rightarrow>
          (if valid \<and> \<not> IsBlacklisted L email blacklist then [block] else [], Returned))"

definition gitlab_processCommit :: "'r golib \<Rightarrow> Config \<Rightarrow> 'r list \<Rightarrow> string \<Rightarrow> GitLabCommit \<Rightarrow> event list \<times> exit" where
  "gitlab_processCommit L cfg blacklist projectURL c =
     (let date = commitDate L (AuthoredDate c);
          committer = AuthorName c @ '' <'' @ AuthorEmail c @ ''>''
      in seq (email_finding L blacklist (AuthorEmail c)
               (Finding EmailFinding
                  [(''Email'', AuthorEmail c), (''Name'', AuthorName c),
                   (''Date'', date), (''Project'', projectURL)]))
        (seq (signatures L (Title c) (OperatingSystems cfg)
                (\<lambda>m. Finding SystemFinding
                   [(''Operating System'', m), (''Committer'', committer),
                    (''Date'', date), (''Project'', projectURL)]))
             (signatures L (Title c) (Utilities cfg)
                (\<lambda>m. Finding UtilityFinding
                   [(''Utility'', m), (''Committer'', committer),
                    (''Date'', date), (''Project'', projectURL)]))))"

fun gitlab_ProcessCommits :: "'r golib \<Rightarrow> GitLabCommit list \<Rightarrow> Config \<Rightarrow> 'r list \<Rightarrow> string \<Rightarrow> event list \<times> exit" where
  "gitlab_ProcessCommits L [] cfg blacklist projectURL = ([], Returned)"
| "gitlab_ProcessCommits L (c # commits) cfg blacklist projectURL =
     seq (gitlab_processCommit L cfg blacklist projectURL c)
         (gitlab_ProcessCommits L commits cfg blacklist projectURL)"

definition users_url :: "string \<Rightarrow> string" where
  "users_url username = ''https://gitlab.com/api/v4/users?username='' @ username"

definition projects_url :: "int \<Rightarrow> nat \<Rightarrow> string" where
  "projects_url userID page =
     ''https://gitlab.com/api/v4/users/'' @ Itoa userID @ ''/projects?per_page=100&page='' @ Itoa (int page)"

definition project_commits_url :: "int \<Rightarrow> nat \<Rightarrow> string" where
  "project_commits_url projectID page =
     ''https://gitlab.com/api/v4/projects/'' @ Itoa projectID @
     ''/repository/commits?per_page=100&page='' @ Itoa (int page)"

definition GetUserID :: "gitlab_world \<Rightarrow> string \<Rightarrow> event list \<times> (string + int)" where
  "GetUserID W username =
     (let url = users_url username in
      case gl_http W url of
        TransportError msg \<Rightarrow> ([Request url], Inl msg)
      | Response body status \<Rightarrow>
          if status \<noteq> 200
          then ([Request url], Inl (''GitLab API error '' @ Itoa status @ newline @ body))
          else (case gl_Unmarshal_users W body of
            Inl msg \<Rightarrow> ([Request url], Inl msg)
          | Inr users \<Rightarrow>
              (case users of
                 [] \<Rightarrow> ([Request url], Inl (''No GitLab user found for '' @ username))
               | u # _ \<Rightarrow> ([Request url], Inr (user_ID u)))))"

partial_function (option) GetUserProjects_loop ::
  "gitlab_world \<Rightarrow> int \<Rightarrow> nat \<Rightarrow> GitLabProject list \<Rightarrow> event list \<Rightarrow> (event list \<times> (string + GitLabProject list)) option" where
  "GetUserProjects_loop W userID page projects out =
     (let url = projects_url userID page in
      case gl_http W url of
        TransportError msg \<Rightarrow> Some (out @ [Request url], Inl msg)
      | Response body status \<Rightarrow>
          if status \<noteq> 200
          then Some (out @ [Request url], Inl (''GitLab API error '' @ Itoa status @ newline @ body))
          else (case gl_Unmarshal_projects W body of
            Inl msg \<Rightarrow> Some (out @ [Request url], Inl msg)
          | Inr tmp \<Rightarrow>
              if tmp = [] then Some (out @ [Request url], Inr projects)
              else GetUserProjects_loop W userID (Suc page) (projects @ tmp) (out @ [Request url])))"

definition GetUserProjects :: "gitlab_world \<Rightarrow> int \<Rightarrow> (event list \<times> (string + GitLabProject list)) option" where
  "GetUserProjects W userID = GetUserProjects_loop W userID 1 [] []"

text \<open>
  \<open>ScanProjectCommits\<close>: \<open>gitlab_fetch_loop\<close> is its paging loop; it yields the events and
  \<open>Some allCommits\<close> when it leaves through \<open>break\<close>, \<open>None\<close> when it leaves through one of the
  three \<open>return\<close>s (after which nothing is processed).
\<close>

partial_function (option) gitlab_fetch_loop ::
  "gitlab_world \<Rightarrow> int \<Rightarrow> nat \<Rightarrow> GitLabCommit list \<Rightarrow> event list \<Rightarrow> (event list \<times> GitLabCommit list option) option" where
  "gitlab_fetch_loop W projectID page allCommits out =
     (let url = project_commits_url projectID page in
      case gl_http W url of
        TransportError msg \<Rightarrow> Some (out @ [Request url, Line (''Error: '' @ msg)], None)
      | Response body status \<Rightarrow>
          if status \<noteq> 200
          then Some (out @ [Request url, Line (''GitLab API error '' @ Itoa status @ newline @ body)], None)
          else (case gl_Unmarshal_commits W body of
            Inl msg \<Rightarrow> Some (out @ [Request url, Line (''Error parsing response: '' @ msg)], None)
          | Inr commits \<Rightarrow>
              if commits = [] then Some (out @ [Request url], Some allCommits)
              else gitlab_fetch_loop W projectID (Suc page) (allCommits @ commits) (out @ [Request url])))"

definition ScanProjectCommits :: "'r golib \<Rightarrow> gitlab_world \<Rightarrow> GitLabProject \<Rightarrow> Config \<Rightarrow> 'r list \<Rightarrow> bool \<Rightarrow> (event list \<times> exit) option" where
  "ScanProjectCommits L W project cfg blacklist ascending =
     (case gitlab_fetch_loop W (project_ID project) 1 [] [] of
        None \<Rightarrow> None
      | Some (evs, None) \<Rightarrow> Some (evs, Returned)
      | Some (evs, Some allCommits) \<Rightarrow>
          (case (if ascending then reverse_in_place allCommits else Some allCommits) of
             None \<Rightarrow> Some (evs, Panicked)
           | Some ordered \<Rightarrow>
               Some (seq (evs, Returned)
                  (gitlab_ProcessCommits L ordered cfg blacklist (WebURL project)))))"

fun gitlab_scan_projects :: "'r golib \<Rightarrow> gitlab_world \<Rightarrow> GitLabProject list \<Rightarrow> Config \<Rightarrow> 'r list \<Rightarrow> (event list \<times> exit) option" where
  "gitlab_scan_projects L W [] cfg blacklist = Some ([], Returned)"
| "gitlab_scan_projects L W (p # projects) cfg blacklist =
     (if ForkedFromProject p \<noteq> None then gitlab_scan_projects L W projects cfg blacklist
      else seq_opt (Some ([Line (''Scanning project: '' @ Path p)], Returned))
          (seq_opt (ScanProjectCommits L W p cfg blacklist True)
          (seq_opt (ScanProjectCommits L W p cfg blacklist False)
                   (gitlab_scan_projects L W projects cfg blacklist))))"

definition gitlab_main :: "'r golib \<Rightarrow> gitlab_world \<Rightarrow> string \<Rightarrow> Config \<Rightarrow> 'r list \<Rightarrow> (event list \<times> exit) option" where
  "gitlab_main L W username cfg blacklist =
     seq_opt (Some ([Line (''Scanning GitLab commits for user: '' @ username @ newline)], Returned))
       (case GetUserID W username of
          (evs, Inl msg) \<Rightarrow> Some (evs @ [Line (''Error fetching user: '' @ msg)], Exited 1)
        | (evs, Inr userID) \<Rightarrow>
            seq_opt (Some (evs, Returned))
              (case GetUserProjects W userID of
                 None \<Rightarrow> None
               | Some (evs', Inl msg) \<Rightarrow> Some (evs' @ [Line (''Error fetching projects: '' @ msg)], Exited 1)
               | Some (evs', Inr projects) \<Rightarrow>
                   seq_opt (Some (evs', Returned)) (gitlab_scan_projects L W projects cfg blacklist)))"

section \<open>bitbucket.go\<close>

text \<open>The nested anonymous structs \<open>Author\<close> and \<open>Links.HTML\<close> are flattened into their one field.\<close>

record BitbucketCommit =
  Hash :: string
  commit_Date :: string
  commit_Message :: string
  Author_Raw :: string
  Links_HTML_Href :: string



definition parseRawAuthor :: "'r golib \<Rightarrow> string \<Rightarrow> (string \<times> string) option" where
  "parseRawAuthor L raw =
     (if Contains raw ''<'' \<and> Contains raw ''>'' then
        (let parts = SplitN raw ''<'' 2 in
         case index parts 0 of
           None \<Rightarrow> None
         | Some part0 \<Rightarrow>
             (case index parts 1 of
                None \<Rightarrow> None
              | Some part1 \<Rightarrow> Some (TrimSpace L part0, TrimSuffix part1 ''>'')))
      else Some (raw, ''''))"

definition bitbucket_commitText :: "BitbucketCommit \<Rightarrow> string \<Rightarrow> string" where
  "bitbucket_commitText c repoName = commit_Message c @ '' '' @ Author_Raw c @ '' '' @ repoName"

definition bitbucket_processCommit :: "'r golib \<Rightarrow> Config \<Rightarrow> 'r list \<Rightarrow> string \<Rightarrow> BitbucketCommit \<Rightarrow> event list \<times> exit" where
  "bitbucket_processCommit L cfg blacklist repoName c =
     (let date = commitDate L (commit_Date c) in
      case parseRawAuthor L (Author_Raw c) of
        None \<Rightarrow> ([], Panicked)
      | Some (name, email) \<Rightarrow>
          seq (email_finding L blacklist email
                 (Finding EmailFinding
                    [(''Email'', email), (''Name'', name), (''Date'', date),
                     (''Repo'', repoName), (''Location'', Links_HTML_Href c)]))
            (let commitText = bitbucket_commitText c repoName in
             seq (signatures L commitText (OperatingSystems cfg)
                    (\<lambda>m. Finding SystemFinding
                       [(''Operating System'', m), (''Date'', date),
                        (''Repo'', repoName), (''Location'', Links_HTML_Href c)]))
                 (signatures L commitText (Utilities cfg)
                    (\<lambda>m. Finding UtilityFinding
                       [(''Utility'', m), (''Date'', date),
                        (''Repo'', repoName), (''Location'', Links_HTML_Href c)]))))"

fun bitbucket_ProcessCommits :: "'r golib \<Rightarrow> BitbucketCommit list \<Rightarrow> Config \<Rightarrow> 'r list \<Rightarrow> string \<Rightarrow> event list \<times> exit" where
  "bitbucket_ProcessCommits L [] cfg blacklist repoName = ([], Returned)"
| "bitbucket_ProcessCommits L (c # commits) cfg blacklist repoName =
     seq (bitbucket_processCommit L cfg blacklist repoName c)
         (bitbucket_ProcessCommits L commits cfg blacklist repoName)"




section \<open>Reading the output, and mocked collaborators\<close>

text \<open>The findings of one kind among the events of a run.\<close>

definition findings_of :: "kind \<Rightarrow> event list \<Rightarrow> event list" where
  "findings_of k out = filter (\<lambda>ev. case ev of Finding k' _ \<Rightarrow> k' = k | _ \<Rightarrow> False) out"

text \<open>
  \<open>pattern_matches L text pat\<close>: the expression of \<open>pat\<close> compiles and \<open>MatchString\<close> finds it
  in \<open>text\<close>.
\<close>

definition pattern_matches :: "'r golib \<Rightarrow> string \<Rightarrow> Pattern \<Rightarrow> bool" where
  "pattern_matches L text pat =
     (case MustCompile L (Regex pat) of None \<Rightarrow> False | Some re \<Rightarrow> MatchString L re text)"

definition compiles :: "'r golib \<Rightarrow> Pattern \<Rightarrow> bool" where
  "compiles L pat = (MustCompile L (Regex pat) \<noteq> None)"

text \<open>
  A mocked GitLab server for project \<open>projectID\<close>: starting at page \<open>page\<close> it answers 200 with
  the pages of \<open>pages\<close>, none of them empty, and then with an empty page. A mocked Bitbucket
  server: starting at \<open>url\<close> it answers 200 with the pages of \<open>pages\<close>, each naming the next
  URL, the last one with no \<open>next\<close>.
\<close>

fun gitlab_serves :: "gitlab_world \<Rightarrow> int \<Rightarrow> nat \<Rightarrow> GitLabCommit list list \<Rightarrow> bool" where
  "gitlab_serves W projectID page [] =
     (case gl_http W (project_commits_url projectID page) of
        Response body status \<Rightarrow> status = 200 \<and> gl_Unmarshal_commits W body = Inr []
      | TransportError _ \<Rightarrow> False)"
| "gitlab_serves W projectID page (pg # pages) =
     (case gl_http W (project_commits_url projectID page) of
        Response body status \<Rightarrow>
          status = 200 \<and> gl_Unmarshal_commits W body = Inr pg \<and> pg \<noteq> [] \<and>
          gitlab_serves W projectID (Suc page) pages
      | TransportError _ \<Rightarrow> False)"


text \<open>The requests for \<open>n\<close> successive pages of a GitLab project, and for a chain of Bitbucket pages.\<close>

fun gitlab_requests :: "int \<Rightarrow> nat \<Rightarrow> nat \<Rightarrow> event list" where
  "gitlab_requests projectID page 0 = []"
| "gitlab_requests projectID page (Suc n) =
     Request (project_commits_url projectID page) # gitlab_requests projectID (Suc page) n"


text \<open>
  A small instance of the library parameters, to run the model on concrete inputs. Its
  expressions are literal strings, which Go's engine finds as substrings, and \<open>(\<close>, which
  \<open>regexp.MustCompile\<close> refuses (missing closing parenthesis); an address is accepted when it
  is a bare \<open>local@domain\<close> without blanks, quotes, brackets or parentheses and returned as it
  is; the public suffix is the last label, ICANN-managed for \<open>com\<close>, \<open>org\<close>, \<open>net\<close> and \<open>io\<close>;
  a URL parses when it holds no blank; the one date known is 2024-01-02T03:04:05Z; blanks
  are the six ASCII ones. On the inputs used below the Go functions return the same.
\<close>

definition ascii_space :: "char \<Rightarrow> bool" where
  "ascii_space c = (c \<in> set [CHR '' '', CHR 0x09, CHR 0x0A, CHR 0x0B, CHR 0x0C, CHR 0x0D])"

definition bare_address :: "string \<Rightarrow> bool" where
  "bare_address a =
     (length (filter (\<lambda>c. c = CHR ''@'') a) = 1 \<and> a \<noteq> [] \<and> hd a \<noteq> CHR ''@'' \<and> last a \<noteq> CHR ''@'' \<and>
      list_all (\<lambda>c. c \<notin> set '' <>()'' \<and> c \<noteq> CHR 0x22) a)"

definition last_label :: "string \<Rightarrow> string" where
  "last_label d = rev (takeWhile (\<lambda>c. c \<noteq> CHR ''.'') (rev d))"

definition sample_lib :: "string golib" where
  "sample_lib =
     \<lparr> MustCompile = (\<lambda>e. if e = ''('' then None else Some e),
       MatchString = (\<lambda>re s. Contains s re),
       ParseAddress = (\<lambda>a. if bare_address a then Some a else None),
       PublicSuffix = (\<lambda>d. (last_label d, last_label d \<in> set [''com'', ''org'', ''net'', ''io''])),
       url_Parse = (\<lambda>u. CHR '' '' \<notin> set u),
       time_Reformat = (\<lambda>d. if d = ''2024-01-02T03:04:05Z'' then Some ''2024-01-02 03:04:05 UTC'' else None),
       TrimSpace = (\<lambda>s. rev (dropWhile ascii_space (rev (dropWhile ascii_space s)))) \<rparr>"

text \<open>
  \<open>matched\<close>: the identifiers the matcher returns (none when it panics). \<open>finding_value\<close>: the
  value on the first line of a finding's block, which is the e-mail address of an e-mail
  finding and the identifier of a signature finding.
\<close>

definition matched :: "'r golib \<Rightarrow> string \<Rightarrow> Pattern list \<Rightarrow> string list" where
  "matched L text patterns = (case SearchPatterns L text patterns of None \<Rightarrow> [] | Some ms \<Rightarrow> ms)"

fun finding_value :: "event \<Rightarrow> string" where
  "finding_value (Finding k ((label, v) # lines)) = v"
| "finding_value ev = []"

text \<open>
  \<open>json.Marshal\<close> of a \<open>CommitItem\<close> whose strings need no escaping (no quote, backslash,
  control character, \<open><\<close>, \<open>>\<close> or \<open>&\<close>, valid UTF-8), and sample inputs.
\<close>

definition quoted :: "string \<Rightarrow> string" where
  "quoted s = CHR 0x22 # s @ [CHR 0x22]"

definition sample_json_user :: "GitUser \<Rightarrow> string" where
  "sample_json_user u =
     ''{'' @ quoted ''name'' @ '':'' @ quoted (Name u) @ '','' @ quoted ''email'' @ '':'' @ quoted (Email u) @
     '','' @ quoted ''date'' @ '':'' @ quoted (Date u) @ ''}''"

definition sample_json :: "CommitItem \<Rightarrow> string" where
  "sample_json c =
     ''{'' @ quoted ''sha'' @ '':'' @ quoted (SHA c) @ '','' @ quoted ''html_url'' @ '':'' @ quoted (HTMLURL c) @
     '','' @ quoted ''commit'' @ '':{'' @ quoted ''author'' @ '':'' @ sample_json_user (Author (Commit c)) @
     '','' @ quoted ''committer'' @ '':'' @ sample_json_user (Committer (Commit c)) @
     '','' @ quoted ''message'' @ '':'' @ quoted (Message (Commit c)) @ ''}}''"

definition sample_commit :: CommitItem where
  "sample_commit =
     \<lparr> SHA = ''4f53'', HTMLURL = ''https://github.com/octo/demo/commit/4f53'',
       Commit = \<lparr> Author = \<lparr> Name = ''John Doe'', Email = ''john@sub.example.com'',
                            Date = ''2024-01-02T03:04:05Z'' \<rparr>,
                  Committer = \<lparr> Name = ''GitHub'', Email = ''noreply@github.com'',
                               Date = ''2024-01-02T03:04:05Z'' \<rparr>,
                  Message = ''Switched to Arch Linux and zsh'' \<rparr> \<rparr>"

definition sample_config :: Config where
  "sample_config =
     \<lparr> OperatingSystems = [\<lparr>ID = ''arch'', Regex = ''Arch Linux''\<rparr>, \<lparr>ID = ''debian'', Regex = ''Debian''\<rparr>],
       Utilities = [\<lparr>ID = ''zsh'', Regex = ''zsh''\<rparr>] \<rparr>"

definition sample_gitlab_commit :: GitLabCommit where
  "sample_gitlab_commit =
     \<lparr> commit_ID = ''9a1c'', ShortID = ''9a1c'', Title = ''Fix typo'',
       AuthorName = ''Arch Linux user'', AuthorEmail = ''dev@example.org'',
       AuthoredDate = ''yesterday'', commit_WebURL = '''' \<rparr>"

definition sample_bitbucket_commit :: BitbucketCommit where
  "sample_bitbucket_commit =
     \<lparr> Hash = ''77aa'', commit_Date = ''yesterday'', commit_Message = ''Fix typo'',
       Author_Raw = ''Arch Linux user'',
       Links_HTML_Href = ''https://bitbucket.org/octo/demo/commits/77aa'' \<rparr>"

text \<open>
  A mocked search endpoint of GitHub: starting at page \<open>page\<close> it answers 200 with the pages
  of \<open>pages\<close>, none of them empty, and then with status 422. \<open>search_trace\<close> is what a
  directional pass then does: it requests and processes page after page and prints the
  notice of the cap.
\<close>

fun search_capped :: "github_world \<Rightarrow> string \<Rightarrow> string \<Rightarrow> nat \<Rightarrow> CommitItem list list \<Rightarrow> bool" where
  "search_capped W username order page [] =
     (case gh_http W (search_url username order page) of
        Response body status \<Rightarrow> status = 422
      | TransportError _ \<Rightarrow> False)"
| "search_capped W username order page (pg # pages) =
     (case gh_http W (search_url username order page) of
        Response body status \<Rightarrow>
          status = 200 \<and> gh_Unmarshal_search W body = Inr pg \<and> pg \<noteq> [] \<and>
          search_capped W username order (Suc page) pages
      | TransportError _ \<Rightarrow> False)"

fun search_trace :: "'r golib \<Rightarrow> github_world \<Rightarrow> string \<Rightarrow> string \<Rightarrow> Config \<Rightarrow> 'r list \<Rightarrow> nat \<Rightarrow> CommitItem list list \<Rightarrow> event list" where
  "search_trace L W username order cfg blacklist page [] =
     [Request (search_url username order page), Line ''Reached 1000-result limit for search API.'']"
| "search_trace L W username order cfg blacklist page (pg # pages) =
     Request (search_url username order page) #
     fst (github_ProcessCommits L (gh_json_Marshal W) pg cfg blacklist) @
     search_trace L W username order cfg blacklist (Suc page) pages"

text \<open>Sample servers and projects.\<close>

definition sample_project :: GitLabProject where
  "sample_project =
     \<lparr> project_ID = 7, project_Name = ''demo'', Path = ''octo/demo'',
       WebURL = ''https://gitlab.com/octo/demo'', ForkedFromProject = None \<rparr>"

definition sample_fork :: GitLabProject where
  "sample_fork =
     \<lparr> project_ID = 8, project_Name = ''copy'', Path = ''octo/copy'',
       WebURL = ''https://gitlab.com/octo/copy'', ForkedFromProject = Some 3 \<rparr>"

definition sample_gitlab_pages :: "GitLabCommit list list" where
  "sample_gitlab_pages =
     [[sample_gitlab_commit, sample_gitlab_commit\<lparr>Title := ''Switched to Arch Linux''\<rparr>],
      [sample_gitlab_commit\<lparr>Title := ''Use zsh''\<rparr>]]"

definition sample_gitlab_world :: gitlab_world where
  "sample_gitlab_world =
     \<lparr> gl_http = (\<lambda>u.
         if u = project_commits_url 7 1 then Response ''page one'' 200
         else if u = project_commits_url 7 2 then Response ''page two'' 200
         else if u = project_commits_url 7 3 then Response ''[]'' 200
         else TransportError ''no route to host''),
       gl_Unmarshal_users = (\<lambda>b. Inl ''unexpected end of JSON input''),
       gl_Unmarshal_projects = (\<lambda>b. Inl ''unexpected end of JSON input''),
       gl_Unmarshal_commits = (\<lambda>b.
         if b = ''page one'' then Inr (sample_gitlab_pages ! 0)
         else if b = ''page two'' then Inr (sample_gitlab_pages ! 1)
         else if b = ''[]'' then Inr []
         else Inl ''unexpected end of JSON input'') \<rparr>"



definition sample_repos :: "Repo list" where
  "sample_repos =
     [\<lparr>repo_Name = ''copy'', FullName = ''octo/copy'', Fork = True\<rparr>,
      \<lparr>repo_Name = ''demo'', FullName = ''octo/demo'', Fork = False\<rparr>]"

definition sample_github_world :: github_world where
  "sample_github_world =
     \<lparr> gh_http = (\<lambda>u.
         if u = search_url ''octo'' ''asc'' 1 then Response ''Only the first 1000 search results are available'' 422
         else if u = search_url ''octo'' ''desc'' 1 then Response ''rate limit exceeded'' 403
         else if u = repos_url ''octo'' 1 then Response ''repos'' 200
         else if u = repos_url ''octo'' 2 then Response ''[]'' 200
         else if u = repo_commits_url ''octo/demo'' 1 then Response ''commits'' 200
         else if u = repo_commits_url ''octo/demo'' 2 then Response ''[]'' 200
         else TransportError ''no route to host''),
       gh_json_Marshal = sample_json,
       gh_Unmarshal_search = (\<lambda>b. Inl ''unexpected end of JSON input''),
       gh_Unmarshal_commits = (\<lambda>b.
         if b = ''commits'' then Inr [sample_commit]
         else if b = ''[]'' then Inr []
         else Inl ''unexpected end of JSON input''),
       gh_Unmarshal_repos = (\<lambda>b.
         if b = ''repos'' then Inr sample_repos
         else if b = ''[]'' then Inr []
         else Inl ''unexpected end of JSON input'') \<rparr>"

text \<open>
  A mocked commit listing of one GitHub repository (200 with the pages of \<open>pages\<close>, none
  empty, then an empty page) and what \<open>ScanRepoCommits\<close> then does.
\<close>

fun repo_serves :: "github_world \<Rightarrow> string \<Rightarrow> nat \<Rightarrow> CommitItem list list \<Rightarrow> bool" where
  "repo_serves W repoFullName page [] =
     (case gh_http W (repo_commits_url repoFullName page) of
        Response body status \<Rightarrow> status = 200 \<and> gh_Unmarshal_commits W body = Inr []
      | TransportError _ \<Rightarrow> False)"
| "repo_serves W repoFullName page (pg # pages) =
     (case gh_http W (repo_commits_url repoFullName page) of
        Response body status \<Rightarrow>
          status = 200 \<and> gh_Unmarshal_commits W body = Inr pg \<and> pg \<noteq> [] \<and>
          repo_serves W repoFullName (Suc page) pages
      | TransportError _ \<Rightarrow> False)"

fun repo_trace :: "'r golib \<Rightarrow> github_world \<Rightarrow> string \<Rightarrow> Config \<Rightarrow> 'r list \<Rightarrow> nat \<Rightarrow> CommitItem list list \<Rightarrow> event list" where
  "repo_trace L W repoFullName cfg blacklist page [] = [Request (repo_commits_url repoFullName page)]"
| "repo_trace L W repoFullName cfg blacklist page (pg # pages) =
     Request (repo_commits_url repoFullName page) #
     fst (github_ProcessCommits L (gh_json_Marshal W) pg cfg blacklist) @
     repo_trace L W repoFullName cfg blacklist (Suc page) pages"

section \<open>Facts about the string functions\<close>

lemma occurs_at_single: "occurs_at s [c] i = (i < length s \<and> s ! i = c)"
proof (cases "i < length s")
  case True
  then have "drop i s = s ! i # drop (Suc i) s"
    by (simp add: Cons_nth_drop_Suc)
  with True show ?thesis by (simp add: occurs_at_def)
next
  case False
  then show ?thesis by (simp add: occurs_at_def)
qed

lemma Contains_single: "Contains s [c] = (c \<in> set s)"
  unfolding Contains_def list_ex_iff
  by (auto simp: occurs_at_single in_set_conv_nth less_Suc_eq)

lemma filter_upt_first:
  "filter P [0..<n] = y # ys \<Longrightarrow> P y \<and> y < n \<and> (\<forall>i<y. \<not> P i)"
proof (induction n arbitrary: ys)
  case 0
  then show ?case by simp
next
  case (Suc n)
  show ?case
  proof (cases "filter P [0..<n]")
    case Nil
    then have none: "\<forall>i<n. \<not> P i"
      by (auto simp: filter_empty_conv)
    from Suc.prems Nil have "P n \<and> y = n"
      by (auto split: if_splits)
    with none show ?thesis by simp
  next
    case (Cons z zs)
    with Suc.prems have "z = y" by (auto split: if_splits)
    with Cons have "filter P [0..<n] = y # zs" by simp
    from Suc.IH[OF this] show ?thesis by (simp add: less_Suc_eq)
  qed
qed

lemma filter_rev_upt_first:
  "filter P (rev [0..<n]) = y # ys \<Longrightarrow> P y \<and> y < n \<and> (\<forall>i. y < i \<and> i < n \<longrightarrow> \<not> P i)"
proof (induction n arbitrary: ys)
  case 0
  then show ?case by simp
next
  case (Suc n)
  show ?case
  proof (cases "P n")
    case True
    with Suc.prems have "y = n" by simp
    with True show ?thesis by auto
  next
    case False
    with Suc.prems have "filter P (rev [0..<n]) = y # ys" by simp
    from Suc.IH[OF this] have ih: "P y" "y < n" "\<forall>i. y < i \<and> i < n \<longrightarrow> \<not> P i"
      by blast+
    show ?thesis
    proof (intro conjI allI impI)
      show "P y" by (rule ih(1))
      show "y < Suc n" using ih(2) by simp
      fix i assume "y < i \<and> i < Suc n"
      then have "i = n \<or> (y < i \<and> i < n)" by auto
      with False ih(3) show "\<not> P i" by blast
    qed
  qed
qed

lemma Index_single_first:
  assumes "c \<notin> set pre"
  shows "Index (pre @ c # post) [c] = int (length pre)"
proof -
  define s where "s = pre @ c # post"
  define P where "P = occurs_at s [c]"
  have here: "P (length pre)" by (simp add: P_def s_def occurs_at_single)
  have "length pre < Suc (length s)" by (simp add: s_def)
  with here have "length pre \<in> set (filter P [0..<Suc (length s)])"
    by (simp del: upt_Suc)
  then obtain y ys where f: "filter P [0..<Suc (length s)] = y # ys"
    by (cases "filter P [0..<Suc (length s)]") (simp_all del: upt_Suc)
  from filter_upt_first[OF f] have y: "P y" "\<forall>i<y. \<not> P i" by blast+
  from y(2) here have "\<not> length pre < y" by blast
  moreover have "\<not> y < length pre"
  proof
    assume lt: "y < length pre"
    with y(1) have "pre ! y = c" by (simp add: P_def s_def occurs_at_single nth_append)
    with lt have "c \<in> set pre" using nth_mem by blast
    with assms show False by simp
  qed
  ultimately have "y = length pre" by simp
  with f show ?thesis unfolding Index_def s_def[symmetric] P_def[symmetric] by simp
qed

lemma Index_single_none: "c \<notin> set s \<Longrightarrow> Index s [c] = - 1"
proof -
  assume "c \<notin> set s"
  then have "filter (occurs_at s [c]) [0..<Suc (length s)] = []"
    unfolding filter_empty_conv occurs_at_single using nth_mem by blast
  then show ?thesis unfolding Index_def by simp
qed

lemma LastIndex_single_last:
  assumes "c \<notin> set post"
  shows "LastIndex (pre @ c # post) [c] = int (length pre)"
proof -
  define s where "s = pre @ c # post"
  define P where "P = occurs_at s [c]"
  have here: "P (length pre)" by (simp add: P_def s_def occurs_at_single)
  have "length pre < Suc (length s)" by (simp add: s_def)
  with here have "length pre \<in> set (filter P (rev [0..<Suc (length s)]))"
    by (simp del: upt_Suc)
  then obtain y ys where f: "filter P (rev [0..<Suc (length s)]) = y # ys"
    by (cases "filter P (rev [0..<Suc (length s)])") (simp_all del: upt_Suc)
  from filter_rev_upt_first[OF f]
  have y: "P y" "\<forall>i. y < i \<and> i < Suc (length s) \<longrightarrow> \<not> P i" by blast+
  from y(2) here \<open>length pre < Suc (length s)\<close> have "\<not> y < length pre" by blast
  moreover have "\<not> length pre < y"
  proof
    assume gt: "length pre < y"
    from y(1) have ys: "y < length s" "s ! y = c" by (simp_all add: P_def occurs_at_single)
    from gt ys(1) have in_post: "y - Suc (length pre) < length post" by (simp add: s_def)
    from gt ys(2) have "post ! (y - Suc (length pre)) = c"
      by (simp add: s_def nth_append nth_Cons')
    with in_post have "c \<in> set post" using nth_mem by blast
    with assms show False by simp
  qed
  ultimately have "y = length pre" by simp
  with f show ?thesis unfolding LastIndex_def s_def[symmetric] P_def[symmetric] by simp
qed

lemma LastIndex_single_none: "c \<notin> set s \<Longrightarrow> LastIndex s [c] = - 1"
proof -
  assume "c \<notin> set s"
  then have "filter (occurs_at s [c]) (rev [0..<Suc (length s)]) = []"
    unfolding filter_empty_conv occurs_at_single using nth_mem by blast
  then show ?thesis unfolding LastIndex_def by simp
qed

lemma split_last_occurrence:
  "c \<in> set s \<Longrightarrow> \<exists>pre post. s = pre @ c # post \<and> c \<notin> set post"
  using split_list_last by fastforce

section \<open>The e-mail validator\<close>

lemma slice_after_last:
  assumes "c \<notin> set post"
  shows "slice_from (pre @ c # post) (LastIndex (pre @ c # post) [c] + 1) = Some post"
  using assms by (simp add: LastIndex_single_last slice_from_def nat_add_distrib)

lemma IsValidEmail_no_at: "CHR ''@'' \<notin> set addr \<Longrightarrow> IsValidEmail L addr = Some False"
  by (simp add: IsValidEmail_def Contains_single)

lemma last_occurrence_unique:
  assumes "pre @ c # post = pre' @ c # post'" "(c :: char) \<notin> set post" "c \<notin> set post'"
  shows "pre' = pre \<and> post' = post"
proof -
  have "int (length pre') = int (length pre)"
    using LastIndex_single_last[OF assms(2), of pre] LastIndex_single_last[OF assms(3), of pre']
    by (simp add: assms(1))
  with assms(1) show ?thesis by simp
qed

lemma IsValidEmail_result:
  "IsValidEmail L addr =
     Some (CHR ''@'' \<in> set addr \<and>
       (\<exists>address local domain.
          ParseAddress L addr = Some address \<and>
          address = local @ ''@'' @ domain \<and> CHR ''@'' \<notin> set domain \<and>
          CHR ''.'' \<in> set domain \<and>
          fst (PublicSuffix L domain) \<noteq> '''' \<and> snd (PublicSuffix L domain) \<and>
          url_Parse L (''http://'' @ domain)))"
proof (cases "CHR ''@'' \<in> set addr")
  case False
  then show ?thesis by (simp add: IsValidEmail_no_at)
next
  case at: True
  show ?thesis
  proof (cases "ParseAddress L addr")
    case None
    with at show ?thesis by (simp add: IsValidEmail_def Contains_single)
  next
    case (Some address)
    show ?thesis
    proof (cases "CHR ''@'' \<in> set address")
      case False
      then have "LastIndex address ''@'' < 0" by (simp add: LastIndex_single_none)
      moreover from False have "\<And>local domain. address \<noteq> local @ ''@'' @ domain" by auto
      ultimately show ?thesis using at Some
        by (simp add: IsValidEmail_def Contains_single)
    next
      case True
      from split_last_occurrence[OF True]
      obtain local domain where split: "address = local @ CHR ''@'' # domain"
        and last: "CHR ''@'' \<notin> set domain"
        by (elim exE conjE)
      have idx: "LastIndex address ''@'' = int (length local)"
        using last by (simp add: split LastIndex_single_last)
      have slice: "slice_from address (LastIndex address ''@'' + 1) = Some domain"
        using slice_after_last[OF last, of local] by (simp add: split)
      have run: "IsValidEmail L addr =
          Some (CHR ''.'' \<in> set domain \<and> fst (PublicSuffix L domain) \<noteq> '''' \<and>
                snd (PublicSuffix L domain) \<and> url_Parse L (''http://'' @ domain))"
        using at Some idx slice
        by (simp add: IsValidEmail_def Contains_single Let_def split: prod.splits)
      have "(\<exists>address' local' domain'.
          ParseAddress L addr = Some address' \<and>
          address' = local' @ ''@'' @ domain' \<and> CHR ''@'' \<notin> set domain' \<and>
          CHR ''.'' \<in> set domain' \<and>
          fst (PublicSuffix L domain') \<noteq> '''' \<and> snd (PublicSuffix L domain') \<and>
          url_Parse L (''http://'' @ domain'))
        = (CHR ''.'' \<in> set domain \<and> fst (PublicSuffix L domain) \<noteq> '''' \<and>
                snd (PublicSuffix L domain) \<and> url_Parse L (''http://'' @ domain))"
        (is "?lhs = ?rhs")
      proof
        assume ?lhs
        then obtain address' local' domain' where
          p: "ParseAddress L addr = Some address'" and
          d: "address' = local' @ ''@'' @ domain'" "CHR ''@'' \<notin> set domain'" and
          r: "CHR ''.'' \<in> set domain'" "fst (PublicSuffix L domain') \<noteq> ''''"
             "snd (PublicSuffix L domain')" "url_Parse L (''http://'' @ domain')"
          by blast
        from p Some have "address' = address" by simp
        with d(1) split have "local @ CHR ''@'' # domain = local' @ CHR ''@'' # domain'" by simp
        from last_occurrence_unique[OF this last d(2)] have "domain' = domain" by simp
        with r show ?rhs by simp
      next
        assume r: ?rhs
        have "address = local @ ''@'' @ domain" by (simp add: split)
        with Some last r show ?lhs by blast
      qed
      with run at show ?thesis by simp
    qed
  qed
qed

lemma IsValidEmail_total: "\<exists>b. IsValidEmail L addr = Some b"
  using IsValidEmail_result by blast

section \<open>The signature matcher\<close>

lemma SearchPatterns_loop_compiles:
  "list_all (compiles L) pats \<Longrightarrow>
   SearchPatterns_loop L text pats acc = Some (acc @ map ID (filter (pattern_matches L text) pats))"
proof (induction pats arbitrary: acc)
  case Nil
  then show ?case by simp
next
  case (Cons pat pats)
  from Cons.prems obtain re where re: "MustCompile L (Regex pat) = Some re"
    by (auto simp: compiles_def)
  from Cons.prems have rest: "list_all (compiles L) pats" by simp
  show ?case
    by (simp add: re Cons.IH[OF rest] pattern_matches_def)
qed

lemma SearchPatterns_loop_panics:
  "\<not> list_all (compiles L) pats \<Longrightarrow> SearchPatterns_loop L text pats acc = None"
proof (induction pats arbitrary: acc)
  case Nil
  then show ?case by simp
next
  case (Cons pat pats)
  show ?case
  proof (cases "MustCompile L (Regex pat)")
    case None
    then show ?thesis by simp
  next
    case (Some re)
    then have "compiles L pat" by (simp add: compiles_def)
    with Cons.prems have "\<not> list_all (compiles L) pats" by simp
    from Cons.IH[OF this] Some show ?thesis by simp
  qed
qed

lemma SearchPatterns_eq:
  "SearchPatterns L text patterns =
     (if list_all (compiles L) patterns
      then Some (map ID (filter (pattern_matches L text) patterns)) else None)"
  by (simp add: SearchPatterns_def SearchPatterns_loop_compiles SearchPatterns_loop_panics)

lemma signatures_eq:
  "signatures L text patterns block =
     (if list_all (compiles L) patterns
      then (map block (map ID (filter (pattern_matches L text) patterns)), Returned)
      else ([], Panicked))"
  by (simp add: signatures_def SearchPatterns_eq)

section \<open>Sequencing, findings and the e-mail gate\<close>

lemma seq_Returned: "seq (out, Returned) q = (out @ fst q, snd q)"
  by (simp add: seq_def)

lemma fst_seq: "fst (seq p q) = (if snd p = Returned then fst p @ fst q else fst p)"
  by (cases p; cases "snd p") (simp_all add: seq_def)

lemma snd_seq: "snd (seq p q) = (if snd p = Returned then snd q else snd p)"
  by (cases p; cases "snd p") (simp_all add: seq_def)

lemma findings_of_Nil: "findings_of k [] = []"
  by (simp add: findings_of_def)

lemma findings_of_append: "findings_of k (a @ b) = findings_of k a @ findings_of k b"
  by (simp add: findings_of_def)

lemma findings_of_concat: "findings_of k (concat xss) = concat (map (findings_of k) xss)"
  by (induction xss) (simp_all add: findings_of_Nil findings_of_append)

lemma findings_of_map_Finding:
  "findings_of k (map (\<lambda>m. Finding k' (f m)) ms) = (if k' = k then map (\<lambda>m. Finding k' (f m)) ms else [])"
  by (induction ms) (simp_all add: findings_of_def)

lemma findings_of_member:
  "ev \<in> set (findings_of k out) = (ev \<in> set out \<and> (\<exists>lines. ev = Finding k lines))"
  by (cases ev) (auto simp: findings_of_def)

lemma findings_of_signatures:
  "findings_of k (fst (signatures L text pats (\<lambda>m. Finding k' (f m)))) =
     (if k' = k then fst (signatures L text pats (\<lambda>m. Finding k' (f m))) else [])"
  by (simp add: signatures_eq findings_of_map_Finding findings_of_Nil map_map comp_def)

lemma IsBlacklisted_iff: "IsBlacklisted L email blacklist = (\<exists>re\<in>set blacklist. MatchString L re email)"
  by (induction blacklist) simp_all

lemma email_finding_eq:
  "email_finding L blacklist email block =
     (if IsValidEmail L email = Some True \<and> \<not> IsBlacklisted L email blacklist then [block] else [], Returned)"
proof -
  obtain b where "IsValidEmail L email = Some b" using IsValidEmail_total by blast
  then show ?thesis by (simp add: email_finding_def)
qed

lemma github_emails_eq:
  "github_emails L blacklist date url ws =
     (map (\<lambda>(name, email). Finding EmailFinding
             [(''Email'', email), (''Name'', name), (''Date'', date), (''Location'', url)])
        (filter (\<lambda>(name, email). IsValidEmail L email = Some True \<and> \<not> IsBlacklisted L email blacklist) ws),
      Returned)"
proof (induction ws)
  case Nil
  then show ?case by simp
next
  case (Cons w ws)
  obtain name email where w: "w = (name, email)" by (cases w)
  obtain b where b: "IsValidEmail L email = Some b" using IsValidEmail_total by blast
  show ?case
    by (simp add: w b Cons.IH seq_Returned)
qed


section \<open>The author parser and the composed text\<close>

lemma SplitN_first:
  assumes "c \<notin> set pre"
  shows "SplitN (pre @ c # post) [c] 2 = [pre, post]"
proof -
  have "SplitN (pre @ c # post) [c] (Suc (Suc 0)) = [pre, post]"
    by (simp add: Index_single_first[OF assms] Let_def)
  then show ?thesis by (simp add: numeral_2_eq_2)
qed

lemma TrimSuffix_single:
  "TrimSuffix s [c] = (if s \<noteq> [] \<and> last s = c then butlast s else s)"
proof (cases s rule: rev_cases)
  case Nil
  then show ?thesis by (simp add: TrimSuffix_def)
next
  case (snoc ys y)
  then show ?thesis by (auto simp: TrimSuffix_def)
qed

lemma parseRawAuthor_split:
  assumes "c1 = CHR ''<''" "c1 \<notin> set pre" "CHR ''>'' \<in> set (pre @ post)"
  shows "parseRawAuthor L (pre @ c1 # post) = Some (TrimSpace L pre, TrimSuffix post ''>'')"
proof -
  have split: "SplitN (pre @ c1 # post) ''<'' 2 = [pre, post]"
    using SplitN_first[OF assms(2), of post] by (simp add: assms(1))
  have "Contains (pre @ c1 # post) ''<''" by (simp add: Contains_single assms(1))
  moreover have "Contains (pre @ c1 # post) ''>''"
    using assms(3) by (simp add: Contains_single)
  ultimately show ?thesis
    by (simp add: parseRawAuthor_def split index_def)
qed

lemma parseRawAuthor_whole:
  "\<not> (CHR ''<'' \<in> set raw \<and> CHR ''>'' \<in> set raw) \<Longrightarrow> parseRawAuthor L raw = Some (raw, '''')"
proof -
  assume "\<not> (CHR ''<'' \<in> set raw \<and> CHR ''>'' \<in> set raw)"
  then have c: "(Contains raw ''<'' \<and> Contains raw ''>'') = False"
    by (simp add: Contains_single)
  show ?thesis
    unfolding parseRawAuthor_def c by simp
qed

lemma parseRawAuthor_result:
  "parseRawAuthor L raw =
     Some (if CHR ''<'' \<in> set raw \<and> CHR ''>'' \<in> set raw
           then (TrimSpace L (takeWhile (\<lambda>c. c \<noteq> CHR ''<'') raw),
                 TrimSuffix (tl (dropWhile (\<lambda>c. c \<noteq> CHR ''<'') raw)) ''>'')
           else (raw, ''''))"
proof (cases "CHR ''<'' \<in> set raw \<and> CHR ''>'' \<in> set raw")
  case False
  from parseRawAuthor_whole[OF False, of L] False show ?thesis
    by (simp only: if_False)
next
  case True
  define pre where "pre = takeWhile (\<lambda>c. c \<noteq> CHR ''<'') raw"
  define post where "post = tl (dropWhile (\<lambda>c. c \<noteq> CHR ''<'') raw)"
  from True have "dropWhile (\<lambda>c. c \<noteq> CHR ''<'') raw \<noteq> []" by simp
  moreover have "hd (dropWhile (\<lambda>c. c \<noteq> CHR ''<'') raw) = CHR ''<''"
    using True hd_dropWhile[of "\<lambda>c. c \<noteq> CHR ''<''" raw] by simp
  ultimately have "dropWhile (\<lambda>c. c \<noteq> CHR ''<'') raw = CHR ''<'' # post"
    unfolding post_def by (metis list.collapse)
  then have raw: "raw = pre @ CHR ''<'' # post"
    unfolding pre_def by (metis takeWhile_dropWhile_id)
  have notin: "CHR ''<'' \<notin> set pre"
    unfolding pre_def using set_takeWhileD by fastforce
  from True raw have "CHR ''>'' \<in> set (pre @ post)" by auto
  from parseRawAuthor_split[OF refl notin this, of L]
  have "parseRawAuthor L raw = Some (TrimSpace L pre, TrimSuffix post ''>'')"
    by (simp only: raw[symmetric])
  with True show ?thesis by (simp add: pre_def post_def)
qed

lemma parseRawAuthor_total: "\<exists>name email. parseRawAuthor L raw = Some (name, email)"
  by (simp add: parseRawAuthor_result)

lemma bitbucket_processCommit_eq:
  "bitbucket_processCommit L cfg blacklist repoName c =
     (case parseRawAuthor L (Author_Raw c) of
        None \<Rightarrow> ([], Panicked)
      | Some (name, email) \<Rightarrow>
          seq (if IsValidEmail L email = Some True \<and> \<not> IsBlacklisted L email blacklist
               then [Finding EmailFinding
                      [(''Email'', email), (''Name'', name), (''Date'', commitDate L (commit_Date c)),
                       (''Repo'', repoName), (''Location'', Links_HTML_Href c)]]
               else [], Returned)
            (seq (signatures L (bitbucket_commitText c repoName) (OperatingSystems cfg)
                    (\<lambda>m. Finding SystemFinding
                       [(''Operating System'', m), (''Date'', commitDate L (commit_Date c)),
                        (''Repo'', repoName), (''Location'', Links_HTML_Href c)]))
                 (signatures L (bitbucket_commitText c repoName) (Utilities cfg)
                    (\<lambda>m. Finding UtilityFinding
                       [(''Utility'', m), (''Date'', commitDate L (commit_Date c)),
                        (''Repo'', repoName), (''Location'', Links_HTML_Href c)]))))"
  by (simp add: bitbucket_processCommit_def Let_def email_finding_eq split: option.splits)

lemma matched_eq:
  "matched L text patterns =
     (if list_all (compiles L) patterns then map ID (filter (pattern_matches L text) patterns) else [])"
  by (simp add: matched_def SearchPatterns_eq)

lemma fst_signatures: "fst (signatures L text patterns block) = map block (matched L text patterns)"
  by (simp add: signatures_eq matched_eq)

lemma snd_signatures:
  "snd (signatures L text patterns block) = (if list_all (compiles L) patterns then Returned else Panicked)"
  by (simp add: signatures_eq)

lemma findings_of_single:
  "findings_of k [Finding k' lines] = (if k' = k then [Finding k' lines] else [])"
  by (simp add: findings_of_def)

section \<open>What one commit prints\<close>

lemma pipeline_fst:
  "fst (seq (es, Returned) (seq (signatures L text os b1) (signatures L text us b2))) =
     es @ map b1 (matched L text os) @
     (if list_all (compiles L) os then map b2 (matched L text us) else [])"
  by (simp add: fst_seq snd_seq fst_signatures snd_signatures)

lemma pipeline_snd:
  "snd (seq (es, Returned) (seq (signatures L text os b1) (signatures L text us b2))) =
     (if list_all (compiles L) os \<and> list_all (compiles L) us then Returned else Panicked)"
  by (simp add: snd_seq snd_signatures)

lemma finding_value_blocks:
  "map finding_value (map (\<lambda>m. Finding k ((label, m) # f m)) ms) = ms"
  by (induction ms) simp_all

lemma findings_of_values:
  "findings_of k (map (\<lambda>m. Finding k' ((label, m) # f m)) ms) =
     (if k' = k then map (\<lambda>m. Finding k' ((label, m) # f m)) ms else [])"
  by (induction ms) (simp_all add: findings_of_def)

lemma findings_of_if:
  "findings_of k (if b then xs else ys) = (if b then findings_of k xs else findings_of k ys)"
  by simp

lemma github_processCommit_fst:
  "fst (github_processCommit L json cfg blacklist c) =
     map (\<lambda>(name, email). Finding EmailFinding
             [(''Email'', email), (''Name'', name),
              (''Date'', commitDate L (Date (Author (Commit c)))), (''Location'', HTMLURL c)])
        (filter (\<lambda>(name, email). IsValidEmail L email = Some True \<and> \<not> IsBlacklisted L email blacklist)
           (github_identities c)) @
     map (\<lambda>m. Finding SystemFinding
             ((''Operating System(s)'', m) #
              [(''Email'', Email (Author (Commit c))),
               (''Date'', commitDate L (Date (Author (Commit c)))), (''Location'', HTMLURL c)]))
        (matched L (json c) (OperatingSystems cfg)) @
     (if list_all (compiles L) (OperatingSystems cfg)
      then map (\<lambda>m. Finding UtilityFinding
             ((''Detected Utility'', m) #
              [(''Committer'', Email (Author (Commit c))),
               (''Date'', commitDate L (Date (Author (Commit c)))), (''Location'', HTMLURL c)]))
        (matched L (json c) (Utilities cfg))
      else [])"
  unfolding github_processCommit_def Let_def github_emails_eq pipeline_fst ..

lemma gitlab_processCommit_fst:
  "fst (gitlab_processCommit L cfg blacklist projectURL c) =
     (if IsValidEmail L (AuthorEmail c) = Some True \<and> \<not> IsBlacklisted L (AuthorEmail c) blacklist
      then [Finding EmailFinding
              [(''Email'', AuthorEmail c), (''Name'', AuthorName c),
               (''Date'', commitDate L (AuthoredDate c)), (''Project'', projectURL)]]
      else []) @
     map (\<lambda>m. Finding SystemFinding
             ((''Operating System'', m) #
              [(''Committer'', AuthorName c @ '' <'' @ AuthorEmail c @ ''>''),
               (''Date'', commitDate L (AuthoredDate c)), (''Project'', projectURL)]))
        (matched L (Title c) (OperatingSystems cfg)) @
     (if list_all (compiles L) (OperatingSystems cfg)
      then map (\<lambda>m. Finding UtilityFinding
             ((''Utility'', m) #
              [(''Committer'', AuthorName c @ '' <'' @ AuthorEmail c @ ''>''),
               (''Date'', commitDate L (AuthoredDate c)), (''Project'', projectURL)]))
        (matched L (Title c) (Utilities cfg))
      else [])"
  unfolding gitlab_processCommit_def Let_def email_finding_eq pipeline_fst ..

lemma bitbucket_processCommit_fst:
  assumes "parseRawAuthor L (Author_Raw c) = Some (name, email)"
  shows "fst (bitbucket_processCommit L cfg blacklist repoName c) =
     (if IsValidEmail L email = Some True \<and> \<not> IsBlacklisted L email blacklist
      then [Finding EmailFinding
              [(''Email'', email), (''Name'', name), (''Date'', commitDate L (commit_Date c)),
               (''Repo'', repoName), (''Location'', Links_HTML_Href c)]]
      else []) @
     map (\<lambda>m. Finding SystemFinding
             ((''Operating System'', m) #
              [(''Date'', commitDate L (commit_Date c)),
               (''Repo'', repoName), (''Location'', Links_HTML_Href c)]))
        (matched L (bitbucket_commitText c repoName) (OperatingSystems cfg)) @
     (if list_all (compiles L) (OperatingSystems cfg)
      then map (\<lambda>m. Finding UtilityFinding
             ((''Utility'', m) #
              [(''Date'', commitDate L (commit_Date c)),
               (''Repo'', repoName), (''Location'', Links_HTML_Href c)]))
        (matched L (bitbucket_commitText c repoName) (Utilities cfg))
      else [])"
  unfolding bitbucket_processCommit_eq assms option.case prod.case pipeline_fst ..

lemma processCommit_snd:
  "snd (github_processCommit L json cfg blacklist h) =
     (if list_all (compiles L) (OperatingSystems cfg) \<and> list_all (compiles L) (Utilities cfg)
      then Returned else Panicked)"
  "snd (gitlab_processCommit L cfg blacklist projectURL g) =
     (if list_all (compiles L) (OperatingSystems cfg) \<and> list_all (compiles L) (Utilities cfg)
      then Returned else Panicked)"
  "snd (bitbucket_processCommit L cfg blacklist repoName b) =
     (if list_all (compiles L) (OperatingSystems cfg) \<and> list_all (compiles L) (Utilities cfg)
      then Returned else Panicked)"
proof -
  show "snd (github_processCommit L json cfg blacklist h) =
     (if list_all (compiles L) (OperatingSystems cfg) \<and> list_all (compiles L) (Utilities cfg)
      then Returned else Panicked)"
    unfolding github_processCommit_def Let_def github_emails_eq pipeline_snd ..
  show "snd (gitlab_processCommit L cfg blacklist projectURL g) =
     (if list_all (compiles L) (OperatingSystems cfg) \<and> list_all (compiles L) (Utilities cfg)
      then Returned else Panicked)"
    unfolding gitlab_processCommit_def Let_def email_finding_eq pipeline_snd ..
  obtain name email where "parseRawAuthor L (Author_Raw b) = Some (name, email)"
    using parseRawAuthor_total by blast
  then show "snd (bitbucket_processCommit L cfg blacklist repoName b) =
     (if list_all (compiles L) (OperatingSystems cfg) \<and> list_all (compiles L) (Utilities cfg)
      then Returned else Panicked)"
    unfolding bitbucket_processCommit_eq by (simp only: option.case prod.case pipeline_snd)
qed

section \<open>Lists of commits and the in-place reversal\<close>

lemma snd_seq_Returned: "snd (seq p q) = Returned \<longleftrightarrow> snd p = Returned \<and> snd q = Returned"
  by (simp add: snd_seq)

lemma set_fst_seq: "set (fst (seq p q)) \<subseteq> set (fst p) \<union> set (fst q)"
  by (simp add: fst_seq)

lemma github_ProcessCommits_returned:
  "snd (github_ProcessCommits L json items cfg blacklist) = Returned \<Longrightarrow>
   fst (github_ProcessCommits L json items cfg blacklist) =
     concat (map (\<lambda>c. fst (github_processCommit L json cfg blacklist c)) items)"
  by (induction items) (simp_all add: snd_seq_Returned fst_seq)

lemma github_ProcessCommits_events:
  "ev \<in> set (fst (github_ProcessCommits L json items cfg blacklist)) \<Longrightarrow>
   \<exists>c\<in>set items. ev \<in> set (fst (github_processCommit L json cfg blacklist c))"
proof (induction items)
  case Nil
  then show ?case by simp
next
  case (Cons c items)
  from Cons.prems set_fst_seq
  have "ev \<in> set (fst (github_processCommit L json cfg blacklist c)) \<or>
        ev \<in> set (fst (github_ProcessCommits L json items cfg blacklist))"
    by fastforce
  with Cons.IH show ?case by auto
qed

lemma gitlab_ProcessCommits_compiled:
  assumes "list_all (compiles L) (OperatingSystems cfg)" "list_all (compiles L) (Utilities cfg)"
  shows "gitlab_ProcessCommits L commits cfg blacklist projectURL =
     (concat (map (\<lambda>c. fst (gitlab_processCommit L cfg blacklist projectURL c)) commits), Returned)"
proof (induction commits)
  case Nil
  then show ?case by simp
next
  case (Cons c commits)
  have "snd (gitlab_processCommit L cfg blacklist projectURL c) = Returned"
    using assms by (simp add: processCommit_snd)
  then have "gitlab_processCommit L cfg blacklist projectURL c =
      (fst (gitlab_processCommit L cfg blacklist projectURL c), Returned)"
    by (metis prod.collapse)
  then have "seq (gitlab_processCommit L cfg blacklist projectURL c) q =
      (fst (gitlab_processCommit L cfg blacklist projectURL c) @ fst q, snd q)" for q
    using seq_Returned by metis
  then show ?case by (simp add: Cons.IH)
qed

lemma reverse_loop_pointwise:
  "0 \<le> i \<Longrightarrow> j < int (length xs) \<Longrightarrow>
   \<exists>ys. reverse_loop xs i j = Some ys \<and> length ys = length xs \<and>
     (\<forall>k<length xs. ys ! k = (if i \<le> int k \<and> int k \<le> j then xs ! nat (i + j - int k) else xs ! k))"
proof (induction xs i j rule: reverse_loop.induct)
  case (1 xs i j)
  show ?case
  proof (cases "i < j")
    case False
    have "\<And>k. i \<le> int k \<and> int k \<le> j \<Longrightarrow> nat (i + j - int k) = k"
      using False by linarith
    then show ?thesis using False by (subst reverse_loop.simps) simp
  next
    case True
    define xs' where "xs' = xs[nat i := xs ! nat j, nat j := xs ! nat i]"
    have len: "length xs' = length xs" by (simp add: xs'_def)
    have step: "reverse_loop xs i j = reverse_loop xs' (i + 1) (j - 1)"
      using True "1.prems" by (subst reverse_loop.simps) (simp add: xs'_def)
    have "\<exists>ys. reverse_loop xs' (i + 1) (j - 1) = Some ys \<and> length ys = length xs' \<and>
       (\<forall>k<length xs'. ys ! k =
         (if i + 1 \<le> int k \<and> int k \<le> j - 1 then xs' ! nat (i + 1 + (j - 1) - int k) else xs' ! k))"
      unfolding xs'_def by (rule "1.IH") (use True "1.prems" in simp_all)
    then obtain ys where ys: "reverse_loop xs' (i + 1) (j - 1) = Some ys" "length ys = length xs'"
      and nth: "\<forall>k<length xs'. ys ! k =
         (if i + 1 \<le> int k \<and> int k \<le> j - 1 then xs' ! nat (i + 1 + (j - 1) - int k) else xs' ! k)"
      by blast
    have "ys ! k = (if i \<le> int k \<and> int k \<le> j then xs ! nat (i + j - int k) else xs ! k)"
      if k: "k < length xs" for k
    proof -
      consider "int k = i" | "int k = j" | "i < int k \<and> int k < j" | "int k < i \<or> j < int k"
        by linarith
      then show ?thesis
      proof cases
        case 1
        then have "nat i = k" by simp
        with 1 True nth k len "1.prems" show ?thesis
          by (auto simp: xs'_def nth_list_update)
      next
        case 2
        then have "nat j = k" by simp
        with 2 True nth k len "1.prems" show ?thesis
          by (auto simp: xs'_def nth_list_update)
      next
        case 3
        let ?m = "nat (i + j - int k)"
        from 3 "1.prems" have m: "?m \<noteq> nat i" "?m \<noteq> nat j" "?m < length xs" by linarith+
        from 3 have "i + 1 + (j - 1) - int k = i + j - int k" by simp
        with 3 nth k len have "ys ! k = xs' ! ?m" by simp
        also from m have "\<dots> = xs ! ?m" by (simp add: xs'_def)
        finally show ?thesis using 3 by simp
      next
        case 4
        with True "1.prems" have "k \<noteq> nat i" "k \<noteq> nat j" by linarith+
        with 4 nth k len show ?thesis by (auto simp: xs'_def)
      qed
    qed
    with ys len step show ?thesis by simp
  qed
qed

lemma reverse_in_place_rev: "reverse_in_place xs = Some (rev xs)"
proof -
  have "\<exists>ys. reverse_loop xs 0 (int (length xs) - 1) = Some ys \<and> length ys = length xs \<and>
     (\<forall>k<length xs. ys ! k =
       (if 0 \<le> int k \<and> int k \<le> int (length xs) - 1
        then xs ! nat (0 + (int (length xs) - 1) - int k) else xs ! k))"
    by (rule reverse_loop_pointwise) simp_all
  then obtain ys where ys: "reverse_loop xs 0 (int (length xs) - 1) = Some ys" "length ys = length xs"
    and nth: "\<forall>k<length xs. ys ! k =
       (if 0 \<le> int k \<and> int k \<le> int (length xs) - 1
        then xs ! nat (0 + (int (length xs) - 1) - int k) else xs ! k)"
    by blast
  have "ys = rev xs"
  proof (rule nth_equalityI)
    show "length ys = length (rev xs)" using ys(2) by simp
    fix k assume "k < length ys"
    with ys(2) have k: "k < length xs" by simp
    then have "nat (0 + (int (length xs) - 1) - int k) = length xs - Suc k" by linarith
    with nth k show "ys ! k = rev xs ! k" by (simp add: rev_nth)
  qed
  with ys(1) show ?thesis by (simp add: reverse_in_place_def)
qed

section \<open>E-mail findings of github.go\<close>

lemma findings_of_keep:
  "\<forall>x\<in>set xs. \<exists>lines. g x = Finding k lines \<Longrightarrow> findings_of k (map g xs) = map g xs"
proof (induction xs)
  case Nil
  then show ?case by (simp add: findings_of_def)
next
  case (Cons a xs)
  from Cons.prems obtain lines where a: "g a = Finding k lines" by auto
  from Cons.prems have "\<forall>x\<in>set xs. \<exists>lines. g x = Finding k lines" by simp
  from Cons.IH[OF this] a show ?case by (simp add: findings_of_def)
qed

lemma github_email_part:
  "findings_of EmailFinding (fst (github_processCommit L json cfg blacklist c)) =
     map (\<lambda>(name, email). Finding EmailFinding
             [(''Email'', email), (''Name'', name),
              (''Date'', commitDate L (Date (Author (Commit c)))), (''Location'', HTMLURL c)])
        (filter (\<lambda>(name, email). IsValidEmail L email = Some True \<and> \<not> IsBlacklisted L email blacklist)
           (github_identities c))"
proof -
  have keep: "findings_of EmailFinding (map g ws) = map g ws"
    if "g = (\<lambda>(name, email). Finding EmailFinding (f name email))" for g f and ws :: "(string \<times> string) list"
    by (rule findings_of_keep) (simp add: that case_prod_beta)
  show ?thesis
    unfolding github_processCommit_fst findings_of_append findings_of_if findings_of_values findings_of_Nil
    by (simp add: keep[OF refl])
qed

lemma github_email_event:
  assumes "ev \<in> set (fst (github_processCommit L json cfg blacklist c))"
    and "ev = Finding EmailFinding ((label, email) # lines)"
  shows "IsValidEmail L email = Some True \<and> \<not> IsBlacklisted L email blacklist"
proof -
  from assms have "ev \<in> set (findings_of EmailFinding (fst (github_processCommit L json cfg blacklist c)))"
    by (simp add: findings_of_member)
  then obtain w where w: "w \<in> set (github_identities c)"
      "IsValidEmail L (snd w) = Some True \<and> \<not> IsBlacklisted L (snd w) blacklist"
      "ev = Finding EmailFinding
             [(''Email'', snd w), (''Name'', fst w),
              (''Date'', commitDate L (Date (Author (Commit c)))), (''Location'', HTMLURL c)]"
    unfolding github_email_part by (auto simp: case_prod_beta)
  from w(3) assms(2) have "snd w = email" by simp
  with w(2) show ?thesis by simp
qed

section \<open>Runs with a configuration that compiles\<close>

lemma seq_fst_Returned:
  "snd p = Returned \<Longrightarrow> seq p q = (fst p @ fst q, snd q)"
  by (cases p) (simp add: seq_def)

lemma github_ProcessCommits_compiled:
  assumes "list_all (compiles L) (OperatingSystems cfg)" "list_all (compiles L) (Utilities cfg)"
  shows "github_ProcessCommits L json items cfg blacklist =
     (concat (map (\<lambda>c. fst (github_processCommit L json cfg blacklist c)) items), Returned)"
proof (induction items)
  case Nil
  then show ?case by simp
next
  case (Cons c items)
  have "snd (github_processCommit L json cfg blacklist c) = Returned"
    using assms by (simp add: processCommit_snd)
  then show ?case by (simp add: seq_fst_Returned Cons.IH)
qed

lemma bitbucket_ProcessCommits_compiled:
  assumes "list_all (compiles L) (OperatingSystems cfg)" "list_all (compiles L) (Utilities cfg)"
  shows "bitbucket_ProcessCommits L commits cfg blacklist repoName =
     (concat (map (\<lambda>c. fst (bitbucket_processCommit L cfg blacklist repoName c)) commits), Returned)"
proof (induction commits)
  case Nil
  then show ?case by simp
next
  case (Cons c commits)
  have "snd (bitbucket_processCommit L cfg blacklist repoName c) = Returned"
    using assms by (simp add: processCommit_snd)
  then show ?case by (simp add: seq_fst_Returned Cons.IH)
qed

lemma sample_config_compiles:
  "list_all (compiles sample_lib) (OperatingSystems sample_config)"
  "list_all (compiles sample_lib) (Utilities sample_config)"
  by code_simp+

section \<open>Which text the signatures are searched in\<close>

lemma findings_of_drop:
  "\<forall>x\<in>set xs. \<exists>k' lines. g x = Finding k' lines \<and> k' \<noteq> k \<Longrightarrow> findings_of k (map g xs) = []"
proof (induction xs)
  case Nil
  then show ?case by (simp add: findings_of_def)
next
  case (Cons a xs)
  from Cons.prems obtain k' lines where a: "g a = Finding k' lines" "k' \<noteq> k" by auto
  from Cons.prems have "\<forall>x\<in>set xs. \<exists>k' lines. g x = Finding k' lines \<and> k' \<noteq> k" by simp
  from Cons.IH[OF this] a show ?case by (simp add: findings_of_def)
qed

lemma signature_ids:
  assumes "out = es @ map (\<lambda>m. Finding SystemFinding ((l1, m) # f1 m)) os @
                 (if b then map (\<lambda>m. Finding UtilityFinding ((l2, m) # f2 m)) us else [])"
    and "findings_of SystemFinding es = []" "findings_of UtilityFinding es = []"
  shows "map finding_value (findings_of SystemFinding out) = os"
    and "map finding_value (findings_of UtilityFinding out) = (if b then us else [])"
proof -
  show "map finding_value (findings_of SystemFinding out) = os"
    unfolding assms(1) findings_of_append assms(2) findings_of_if findings_of_values findings_of_Nil
    by (simp add: comp_def)
  show "map finding_value (findings_of UtilityFinding out) = (if b then us else [])"
    unfolding assms(1) findings_of_append assms(3) findings_of_if findings_of_values findings_of_Nil
    by (simp add: comp_def)
qed

lemma email_block_other:
  "k \<noteq> EmailFinding \<Longrightarrow> findings_of k (if b then [Finding EmailFinding lines] else []) = []"
  by (simp add: findings_of_def)

lemma github_signature_ids:
  "map finding_value (findings_of SystemFinding (fst (github_processCommit L json cfg blacklist c))) =
     matched L (json c) (OperatingSystems cfg)"
  "map finding_value (findings_of UtilityFinding (fst (github_processCommit L json cfg blacklist c))) =
     (if list_all (compiles L) (OperatingSystems cfg) then matched L (json c) (Utilities cfg) else [])"
proof -
  have es: "findings_of k (map (\<lambda>(name, email). Finding EmailFinding (f name email)) ws) = []"
    if "k \<noteq> EmailFinding" for k f and ws :: "(string \<times> string) list"
    by (rule findings_of_drop) (use that in \<open>auto simp: case_prod_beta\<close>)
  note fst = github_processCommit_fst[of L json cfg blacklist c]
  show "map finding_value (findings_of SystemFinding (fst (github_processCommit L json cfg blacklist c))) =
     matched L (json c) (OperatingSystems cfg)"
    by (rule signature_ids(1)[OF fst]) (simp_all add: es)
  show "map finding_value (findings_of UtilityFinding (fst (github_processCommit L json cfg blacklist c))) =
     (if list_all (compiles L) (OperatingSystems cfg) then matched L (json c) (Utilities cfg) else [])"
    by (rule signature_ids(2)[OF fst]) (simp_all add: es)
qed

lemma gitlab_signature_ids:
  "map finding_value (findings_of SystemFinding (fst (gitlab_processCommit L cfg blacklist projectURL c))) =
     matched L (Title c) (OperatingSystems cfg)"
  "map finding_value (findings_of UtilityFinding (fst (gitlab_processCommit L cfg blacklist projectURL c))) =
     (if list_all (compiles L) (OperatingSystems cfg) then matched L (Title c) (Utilities cfg) else [])"
proof -
  note fst = gitlab_processCommit_fst[of L cfg blacklist projectURL c]
  show "map finding_value (findings_of SystemFinding (fst (gitlab_processCommit L cfg blacklist projectURL c))) =
     matched L (Title c) (OperatingSystems cfg)"
    by (rule signature_ids(1)[OF fst]) (simp_all add: email_block_other)
  show "map finding_value (findings_of UtilityFinding (fst (gitlab_processCommit L cfg blacklist projectURL c))) =
     (if list_all (compiles L) (OperatingSystems cfg) then matched L (Title c) (Utilities cfg) else [])"
    by (rule signature_ids(2)[OF fst]) (simp_all add: email_block_other)
qed

lemma bitbucket_signature_ids:
  "map finding_value (findings_of SystemFinding (fst (bitbucket_processCommit L cfg blacklist repoName c))) =
     matched L (bitbucket_commitText c repoName) (OperatingSystems cfg)"
  "map finding_value (findings_of UtilityFinding (fst (bitbucket_processCommit L cfg blacklist repoName c))) =
     (if list_all (compiles L) (OperatingSystems cfg)
      then matched L (bitbucket_commitText c repoName) (Utilities cfg) else [])"
proof -
  obtain name email where p: "parseRawAuthor L (Author_Raw c) = Some (name, email)"
    using parseRawAuthor_total by blast
  note fst = bitbucket_processCommit_fst[OF p, of cfg blacklist repoName]
  show "map finding_value (findings_of SystemFinding (fst (bitbucket_processCommit L cfg blacklist repoName c))) =
     matched L (bitbucket_commitText c repoName) (OperatingSystems cfg)"
    by (rule signature_ids(1)[OF fst]) (simp_all add: email_block_other)
  show "map finding_value (findings_of UtilityFinding (fst (bitbucket_processCommit L cfg blacklist repoName c))) =
     (if list_all (compiles L) (OperatingSystems cfg)
      then matched L (bitbucket_commitText c repoName) (Utilities cfg) else [])"
    by (rule signature_ids(2)[OF fst]) (simp_all add: email_block_other)
qed

lemma bitbucket_email_part:
  assumes "parseRawAuthor L (Author_Raw c) = Some (name, email)"
  shows "findings_of EmailFinding (fst (bitbucket_processCommit L cfg blacklist repoName c)) =
     (if IsValidEmail L email = Some True \<and> \<not> IsBlacklisted L email blacklist
      then [Finding EmailFinding
              [(''Email'', email), (''Name'', name), (''Date'', commitDate L (commit_Date c)),
               (''Repo'', repoName), (''Location'', Links_HTML_Href c)]]
      else [])"
  unfolding bitbucket_processCommit_fst[OF assms] findings_of_append findings_of_if findings_of_values
    findings_of_Nil
  by (simp add: findings_of_def)

lemma IsValidEmail_empty: "IsValidEmail L [] = Some False"
  by (simp add: IsValidEmail_no_at)

section \<open>Paging loops against a mocked server\<close>

lemma gitlab_fetch_loop_serves:
  "gitlab_serves W projectID page pages \<Longrightarrow>
   gitlab_fetch_loop W projectID page allCommits out =
     Some (out @ gitlab_requests projectID page (Suc (length pages)), Some (allCommits @ concat pages))"
proof (induction pages arbitrary: page allCommits out)
  case Nil
  then obtain body where "gl_http W (project_commits_url projectID page) = Response body 200"
      "gl_Unmarshal_commits W body = Inr []"
    by (auto split: response.splits)
  then show ?case
    by (subst gitlab_fetch_loop.simps) simp
next
  case (Cons pg pages)
  then obtain body where r: "gl_http W (project_commits_url projectID page) = Response body 200"
      "gl_Unmarshal_commits W body = Inr pg" "pg \<noteq> []"
    and rest: "gitlab_serves W projectID (Suc page) pages"
    by (auto split: response.splits)
  have "gitlab_fetch_loop W projectID page allCommits out =
      gitlab_fetch_loop W projectID (Suc page) (allCommits @ pg) (out @ [Request (project_commits_url projectID page)])"
    using r by (subst gitlab_fetch_loop.simps) simp
  also have "\<dots> = Some ((out @ [Request (project_commits_url projectID page)]) @
        gitlab_requests projectID (Suc page) (Suc (length pages)), Some ((allCommits @ pg) @ concat pages))"
    by (rule Cons.IH[OF rest])
  finally show ?case by simp
qed


lemma ScanProjectCommits_serves:
  assumes "gitlab_serves W (project_ID project) 1 pages"
  shows "ScanProjectCommits L W project cfg blacklist ascending =
     Some (seq (gitlab_requests (project_ID project) 1 (Suc (length pages)), Returned)
        (gitlab_ProcessCommits L (if ascending then rev (concat pages) else concat pages)
           cfg blacklist (WebURL project)))"
  unfolding ScanProjectCommits_def
  using gitlab_fetch_loop_serves[OF assms, of "[]" "[]"]
  by (simp add: reverse_in_place_rev)


section \<open>The passes of github.go\<close>

lemma seq_opt_Returned: "seq_opt (Some (out, Returned)) q = map_option (\<lambda>r. (out @ fst r, snd r)) q"
  by (cases q) (simp_all add: seq_opt_def)

lemma seq_opt_Some: "seq_opt (Some (out, Returned)) (Some (out', st)) = Some (out @ out', st)"
  by (simp add: seq_opt_def)

lemma seq_opt_Nil: "seq_opt (Some ([], Returned)) q = q"
  by (cases q) (simp_all add: seq_opt_def)

lemma seq_opt_assoc: "seq_opt (seq_opt p q) r = seq_opt p (seq_opt q r)"
proof (cases p)
  case None
  then show ?thesis by (simp add: seq_opt_def)
next
  case (Some a)
  obtain out st where a: "a = (out, st)" by (cases a)
  show ?thesis
  proof (cases st)
    case Returned
    show ?thesis
    proof (cases q)
      case None
      with Some a Returned show ?thesis by (simp add: seq_opt_def)
    next
      case q: (Some b)
      obtain out' st' where b: "b = (out', st')" by (cases b)
      show ?thesis
      proof (cases st')
        case Returned
        with Some a \<open>st = Returned\<close> q b show ?thesis
          by (cases r) (simp_all add: seq_opt_def)
      next
        case Panicked
        with Some a \<open>st = Returned\<close> q b show ?thesis by (simp add: seq_opt_def)
      next
        case (Exited n)
        with Some a \<open>st = Returned\<close> q b show ?thesis by (simp add: seq_opt_def)
      qed
    qed
  next
    case Panicked
    with Some a show ?thesis by (simp add: seq_opt_def)
  next
    case (Exited n)
    with Some a show ?thesis by (simp add: seq_opt_def)
  qed
qed

lemma ScanGlobalCommits_loop_cap:
  assumes "gh_http W (search_url username order page) = Response body 422"
  shows "ScanGlobalCommits_loop L W username cfg blacklist order page out =
     Some (out @ [Request (search_url username order page),
                  Line ''Reached 1000-result limit for search API.''], Returned)"
  using assms by (subst ScanGlobalCommits_loop.simps) simp

lemma ScanGlobalCommits_loop_error:
  assumes "gh_http W (search_url username order page) = Response body status"
    and "status \<noteq> 200" "status \<noteq> 422"
  shows "ScanGlobalCommits_loop L W username cfg blacklist order page out =
     Some (out @ [Request (search_url username order page),
                  Line (''GitHub API error '' @ Itoa status @ newline @ body)], Returned)"
  using assms by (subst ScanGlobalCommits_loop.simps) simp

lemma ScanGlobalCommits_loop_capped:
  assumes "list_all (compiles L) (OperatingSystems cfg)" "list_all (compiles L) (Utilities cfg)"
  shows "search_capped W username order page pages \<Longrightarrow>
     ScanGlobalCommits_loop L W username cfg blacklist order page out =
       Some (out @ search_trace L W username order cfg blacklist page pages, Returned)"
proof (induction pages arbitrary: page out)
  case Nil
  then obtain body where "gh_http W (search_url username order page) = Response body 422"
    by (auto split: response.splits)
  from ScanGlobalCommits_loop_cap[OF this] show ?case by simp
next
  case (Cons pg pages)
  then obtain body where r: "gh_http W (search_url username order page) = Response body 200"
      "gh_Unmarshal_search W body = Inr pg" "pg \<noteq> []"
    and rest: "search_capped W username order (Suc page) pages"
    by (auto split: response.splits)
  obtain evs where p: "github_ProcessCommits L (gh_json_Marshal W) pg cfg blacklist = (evs, Returned)"
    using github_ProcessCommits_compiled[OF assms] by blast
  have "ScanGlobalCommits_loop L W username cfg blacklist order page out =
      ScanGlobalCommits_loop L W username cfg blacklist order (Suc page)
        (out @ Request (search_url username order page) # evs)"
    using r p by (subst ScanGlobalCommits_loop.simps) simp
  also have "\<dots> = Some ((out @ Request (search_url username order page) # evs) @
       search_trace L W username order cfg blacklist (Suc page) pages, Returned)"
    by (rule Cons.IH[OF rest])
  finally show ?case using p by simp
qed

lemma ScanRepoCommits_loop_serves:
  assumes "list_all (compiles L) (OperatingSystems cfg)" "list_all (compiles L) (Utilities cfg)"
  shows "repo_serves W repoFullName page pages \<Longrightarrow>
     ScanRepoCommits_loop L W repoFullName cfg blacklist page out =
       Some (out @ repo_trace L W repoFullName cfg blacklist page pages, Returned)"
proof (induction pages arbitrary: page out)
  case Nil
  then obtain body where "gh_http W (repo_commits_url repoFullName page) = Response body 200"
      "gh_Unmarshal_commits W body = Inr []"
    by (auto split: response.splits)
  then show ?case by (subst ScanRepoCommits_loop.simps) simp
next
  case (Cons pg pages)
  then obtain body where r: "gh_http W (repo_commits_url repoFullName page) = Response body 200"
      "gh_Unmarshal_commits W body = Inr pg" "pg \<noteq> []"
    and rest: "repo_serves W repoFullName (Suc page) pages"
    by (auto split: response.splits)
  obtain evs where p: "github_ProcessCommits L (gh_json_Marshal W) pg cfg blacklist = (evs, Returned)"
    using github_ProcessCommits_compiled[OF assms] by blast
  have "ScanRepoCommits_loop L W repoFullName cfg blacklist page out =
      ScanRepoCommits_loop L W repoFullName cfg blacklist (Suc page)
        (out @ Request (repo_commits_url repoFullName page) # evs)"
    using r p by (subst ScanRepoCommits_loop.simps) simp
  also have "\<dots> = Some ((out @ Request (repo_commits_url repoFullName page) # evs) @
       repo_trace L W repoFullName cfg blacklist (Suc page) pages, Returned)"
    by (rule Cons.IH[OF rest])
  finally show ?case using p by simp
qed

lemma github_main_passes:
  assumes "ScanGlobalCommits L W username cfg blacklist True = Some (out1, Returned)"
    and "ScanGlobalCommits L W username cfg blacklist False = Some (out2, Returned)"
  shows "github_main L W username cfg blacklist =
     seq_opt (Some ([Line (''Scanning commits for user: '' @ username @ newline),
                     Line ''=== First 1000 commits (oldest) ===''] @ out1 @
                    [Line ''=== Last 1000 commits (newest) ===''] @ out2, Returned))
       (github_per_repo_pass L W username cfg blacklist)"
  unfolding github_main_def assms
  by (simp add: seq_opt_Returned option.map_comp comp_def)

section \<open>Which repositories are fetched\<close>

lemma github_processCommit_no_request:
  "Request url \<notin> set (fst (github_processCommit L json cfg blacklist c))"
  unfolding github_processCommit_fst by (auto simp: case_prod_beta)

lemma gitlab_processCommit_no_request:
  "Request url \<notin> set (fst (gitlab_processCommit L cfg blacklist projectURL c))"
  unfolding gitlab_processCommit_fst by auto

lemma github_ProcessCommits_no_request:
  "Request url \<notin> set (fst (github_ProcessCommits L json items cfg blacklist))"
  using github_ProcessCommits_events github_processCommit_no_request by blast

lemma gitlab_ProcessCommits_events:
  "ev \<in> set (fst (gitlab_ProcessCommits L commits cfg blacklist projectURL)) \<Longrightarrow>
   \<exists>c\<in>set commits. ev \<in> set (fst (gitlab_processCommit L cfg blacklist projectURL c))"
proof (induction commits)
  case Nil
  then show ?case by simp
next
  case (Cons c commits)
  from Cons.prems set_fst_seq
  have "ev \<in> set (fst (gitlab_processCommit L cfg blacklist projectURL c)) \<or>
        ev \<in> set (fst (gitlab_ProcessCommits L commits cfg blacklist projectURL))"
    by fastforce
  with Cons.IH show ?case by auto
qed

lemma gitlab_ProcessCommits_no_request:
  "Request url \<notin> set (fst (gitlab_ProcessCommits L commits cfg blacklist projectURL))"
  using gitlab_ProcessCommits_events gitlab_processCommit_no_request by blast

lemma ScanRepoCommits_loop_requests:
  assumes "ScanRepoCommits_loop L W repoFullName cfg blacklist page out = Some y"
  shows "\<forall>url. Request url \<in> set (fst y) \<longrightarrow>
     Request url \<in> set out \<or> (\<exists>p. url = repo_commits_url repoFullName p)"
proof (rule ScanRepoCommits_loop.raw_induct[where P = "\<lambda>L W repoFullName cfg blacklist page out y.
      \<forall>url. Request url \<in> set (fst y) \<longrightarrow>
        Request url \<in> set out \<or> (\<exists>p. url = repo_commits_url repoFullName p)", OF _ assms], goal_cases)
  case (1 loop L W repoFullName cfg blacklist page out y)
  note IH = "1"(1) and run = "1"(2)
  show ?case
  proof (cases "gh_http W (repo_commits_url repoFullName page)")
    case (TransportError msg)
    with run show ?thesis by auto
  next
    case (Response body status)
    show ?thesis
    proof (cases "status = 200")
      case False
      with Response run show ?thesis by auto
    next
      case True
      show ?thesis
      proof (cases "gh_Unmarshal_commits W body")
        case (Inl msg)
        with True Response run show ?thesis by auto
      next
        case (Inr commits)
        show ?thesis
        proof (cases "commits = []")
          case True
          with Inr \<open>status = 200\<close> Response run show ?thesis by auto
        next
          case False
          obtain evs st where p: "github_ProcessCommits L (gh_json_Marshal W) commits cfg blacklist = (evs, st)"
            by (cases "github_ProcessCommits L (gh_json_Marshal W) commits cfg blacklist")
          have nr: "Request url \<notin> set evs" for url
            using github_ProcessCommits_no_request[of url L "gh_json_Marshal W" commits cfg blacklist] p by simp
          show ?thesis
          proof (cases "st = Returned")
            case True
            with False Inr \<open>status = 200\<close> Response run p
            have "loop L W repoFullName cfg blacklist (Suc page)
                (out @ Request (repo_commits_url repoFullName page) # evs) = Some y"
              by simp
            from IH[OF this] nr show ?thesis by auto
          next
            case notret: False
            with False Inr \<open>status = 200\<close> Response run p
            have "y = (out @ Request (repo_commits_url repoFullName page) # evs, st)" by simp
            with nr show ?thesis by auto
          qed
        qed
      qed
    qed
  qed
qed

lemma ScanRepoCommits_requests:
  assumes "ScanRepoCommits L W repoFullName cfg blacklist = Some (out, st)" "Request url \<in> set out"
  shows "\<exists>p. url = repo_commits_url repoFullName p"
  using ScanRepoCommits_loop_requests[of L W repoFullName cfg blacklist 1 "[]" "(out, st)"] assms
  by (simp add: ScanRepoCommits_def)

lemma seq_opt_SomeD:
  assumes "seq_opt p q = Some (out, st)"
  shows "\<exists>out1 st1. p = Some (out1, st1) \<and>
     (if st1 = Returned then \<exists>out2. q = Some (out2, st) \<and> out = out1 @ out2
      else out = out1 \<and> st = st1)"
proof (cases p)
  case None
  with assms show ?thesis by (simp add: seq_opt_def)
next
  case (Some a)
  obtain out1 st1 where a: "a = (out1, st1)" by (cases a)
  show ?thesis
  proof (cases st1)
    case Returned
    with assms Some a show ?thesis
      by (cases q) (auto simp: seq_opt_def)
  next
    case Panicked
    with assms Some a show ?thesis by (auto simp: seq_opt_def)
  next
    case (Exited n)
    with assms Some a show ?thesis by (auto simp: seq_opt_def)
  qed
qed

lemma seq_opt_events:
  assumes "seq_opt p q = Some (out, st)" "ev \<in> set out"
  shows "(\<exists>out1 st1. p = Some (out1, st1) \<and> ev \<in> set out1) \<or>
         (\<exists>out2 st2. q = Some (out2, st2) \<and> ev \<in> set out2)"
proof -
  from seq_opt_SomeD[OF assms(1)] obtain out1 st1 where p: "p = Some (out1, st1)"
    and r: "if st1 = Returned then \<exists>out2. q = Some (out2, st) \<and> out = out1 @ out2
            else out = out1 \<and> st = st1"
    by blast
  show ?thesis
  proof (cases "st1 = Returned")
    case True
    with r obtain out2 where "q = Some (out2, st)" "out = out1 @ out2" by auto
    with assms(2) p show ?thesis by auto
  next
    case False
    with r assms(2) p show ?thesis by auto
  qed
qed

lemma github_scan_repos_filter:
  "github_scan_repos L W repos cfg blacklist =
   github_scan_repos L W (filter (\<lambda>r. \<not> Fork r) repos) cfg blacklist"
  by (induction repos) simp_all

lemma github_scan_repos_requests:
  "github_scan_repos L W repos cfg blacklist = Some (out, st) \<Longrightarrow> Request url \<in> set out \<Longrightarrow>
   \<exists>r\<in>set repos. \<not> Fork r \<and> (\<exists>p. url = repo_commits_url (FullName r) p)"
proof (induction repos arbitrary: out st)
  case Nil
  then show ?case by simp
next
  case (Cons r repos)
  show ?case
  proof (cases "Fork r")
    case True
    with Cons.prems have "github_scan_repos L W repos cfg blacklist = Some (out, st)" by simp
    from Cons.IH[OF this Cons.prems(2)] show ?thesis by auto
  next
    case False
    with Cons.prems(1) have run: "seq_opt (Some ([Line (''Scanning repo: '' @ FullName r)], Returned))
          (seq_opt (ScanRepoCommits L W (FullName r) cfg blacklist)
                   (github_scan_repos L W repos cfg blacklist)) = Some (out, st)"
      by simp
    from seq_opt_events[OF run Cons.prems(2)]
    obtain out2 st2 where rest: "seq_opt (ScanRepoCommits L W (FullName r) cfg blacklist)
                   (github_scan_repos L W repos cfg blacklist) = Some (out2, st2)"
      and in2: "Request url \<in> set out2"
      by auto
    from seq_opt_events[OF rest in2]
    consider out3 st3 where "ScanRepoCommits L W (FullName r) cfg blacklist = Some (out3, st3)"
        "Request url \<in> set out3"
      | out4 st4 where "github_scan_repos L W repos cfg blacklist = Some (out4, st4)"
        "Request url \<in> set out4"
      by blast
    then show ?thesis
    proof cases
      case 1
      from ScanRepoCommits_requests[OF 1] False show ?thesis by auto
    next
      case 2
      from Cons.IH[OF 2] show ?thesis by auto
    qed
  qed
qed

section \<open>The project loop of gitlab.go\<close>

lemma gitlab_fetch_loop_requests:
  assumes "gitlab_fetch_loop W projectID page allCommits out = Some y"
  shows "\<forall>url. Request url \<in> set (fst y) \<longrightarrow>
     Request url \<in> set out \<or> (\<exists>p. url = project_commits_url projectID p)"
proof (rule gitlab_fetch_loop.raw_induct[where P = "\<lambda>W projectID page allCommits out y.
      \<forall>url. Request url \<in> set (fst y) \<longrightarrow>
        Request url \<in> set out \<or> (\<exists>p. url = project_commits_url projectID p)", OF _ assms], goal_cases)
  case (1 loop W projectID page allCommits out y)
  note IH = "1"(1) and run = "1"(2)
  show ?case
  proof (cases "gl_http W (project_commits_url projectID page)")
    case (TransportError msg)
    with run show ?thesis by auto
  next
    case (Response body status)
    show ?thesis
    proof (cases "status = 200")
      case False
      with Response run show ?thesis by auto
    next
      case True
      show ?thesis
      proof (cases "gl_Unmarshal_commits W body")
        case (Inl msg)
        with True Response run show ?thesis by auto
      next
        case (Inr commits)
        show ?thesis
        proof (cases "commits = []")
          case True
          with Inr \<open>status = 200\<close> Response run show ?thesis by auto
        next
          case False
          with Inr \<open>status = 200\<close> Response run
          have "loop W projectID (Suc page) (allCommits @ commits)
              (out @ [Request (project_commits_url projectID page)]) = Some y"
            by simp
          from IH[OF this] show ?thesis by auto
        qed
      qed
    qed
  qed
qed

lemma ScanProjectCommits_requests:
  assumes "ScanProjectCommits L W project cfg blacklist ascending = Some (out, st)"
    and "Request url \<in> set out"
  shows "\<exists>p. url = project_commits_url (project_ID project) p"
proof (cases "gitlab_fetch_loop W (project_ID project) 1 [] []")
  case None
  with assms(1) show ?thesis by (simp add: ScanProjectCommits_def)
next
  case (Some y)
  obtain evs fetched where y: "y = (evs, fetched)" by (cases y)
  from gitlab_fetch_loop_requests[OF Some] y
  have reqs: "\<forall>url. Request url \<in> set evs \<longrightarrow> (\<exists>p. url = project_commits_url (project_ID project) p)"
    by simp
  have "set out \<subseteq> set evs \<union> {ev. \<exists>cs. ev \<in> set (fst (gitlab_ProcessCommits L cs cfg blacklist (WebURL project)))}"
  proof (cases fetched)
    case None
    with assms(1) Some y show ?thesis by (simp add: ScanProjectCommits_def)
  next
    case fetched: (Some allCommits)
    define ordered where "ordered = (if ascending then rev allCommits else allCommits)"
    have o: "(if ascending then reverse_in_place allCommits else Some allCommits) = Some ordered"
      by (simp add: reverse_in_place_rev ordered_def)
    from assms(1) Some y fetched o
    have "(out, st) = seq (evs, Returned) (gitlab_ProcessCommits L ordered cfg blacklist (WebURL project))"
      by (simp add: ScanProjectCommits_def)
    then have "out = evs @ fst (gitlab_ProcessCommits L ordered cfg blacklist (WebURL project))"
      by (simp add: seq_Returned)
    then show ?thesis by auto
  qed
  with assms(2) reqs gitlab_ProcessCommits_no_request show ?thesis by blast
qed

lemma gitlab_scan_projects_filter:
  "gitlab_scan_projects L W projects cfg blacklist =
   gitlab_scan_projects L W (filter (\<lambda>p. ForkedFromProject p = None) projects) cfg blacklist"
  by (induction projects) simp_all

lemma gitlab_scan_projects_requests:
  "gitlab_scan_projects L W projects cfg blacklist = Some (out, st) \<Longrightarrow> Request url \<in> set out \<Longrightarrow>
   \<exists>p\<in>set projects. ForkedFromProject p = None \<and> (\<exists>n. url = project_commits_url (project_ID p) n)"
proof (induction projects arbitrary: out st)
  case Nil
  then show ?case by simp
next
  case (Cons p projects)
  show ?case
  proof (cases "ForkedFromProject p = None")
    case False
    with Cons.prems have "gitlab_scan_projects L W projects cfg blacklist = Some (out, st)" by simp
    from Cons.IH[OF this Cons.prems(2)] show ?thesis by auto
  next
    case True
    with Cons.prems(1) have run: "seq_opt (Some ([Line (''Scanning project: '' @ Path p)], Returned))
          (seq_opt (ScanProjectCommits L W p cfg blacklist True)
          (seq_opt (ScanProjectCommits L W p cfg blacklist False)
                   (gitlab_scan_projects L W projects cfg blacklist))) = Some (out, st)"
      by simp
    from seq_opt_events[OF run Cons.prems(2)]
    obtain out2 st2 where rest: "seq_opt (ScanProjectCommits L W p cfg blacklist True)
          (seq_opt (ScanProjectCommits L W p cfg blacklist False)
                   (gitlab_scan_projects L W projects cfg blacklist)) = Some (out2, st2)"
      and in2: "Request url \<in> set out2"
      by auto
    from seq_opt_events[OF rest in2]
    consider out3 st3 where "ScanProjectCommits L W p cfg blacklist True = Some (out3, st3)"
        "Request url \<in> set out3"
      | out4 st4 where "seq_opt (ScanProjectCommits L W p cfg blacklist False)
                   (gitlab_scan_projects L W projects cfg blacklist) = Some (out4, st4)"
        "Request url \<in> set out4"
      by blast
    then show ?thesis
    proof cases
      case 1
      from ScanProjectCommits_requests[OF 1] True show ?thesis by auto
    next
      case 2
      from seq_opt_events[OF 2]
      consider out5 st5 where "ScanProjectCommits L W p cfg blacklist False = Some (out5, st5)"
          "Request url \<in> set out5"
        | out6 st6 where "gitlab_scan_projects L W projects cfg blacklist = Some (out6, st6)"
          "Request url \<in> set out6"
        by blast
      then show ?thesis
      proof cases
        case 1
        from ScanProjectCommits_requests[OF 1] True show ?thesis by auto
      next
        case 2
        from Cons.IH[OF 2] show ?thesis by auto
      qed
    qed
  qed
qed

lemma gitlab_pass_mset:
  assumes "list_all (compiles L) (OperatingSystems cfg)" "list_all (compiles L) (Utilities cfg)"
  shows "mset (fst (gitlab_ProcessCommits L (rev commits) cfg blacklist projectURL)) =
         mset (fst (gitlab_ProcessCommits L commits cfg blacklist projectURL))"
  by (simp add: gitlab_ProcessCommits_compiled[OF assms] mset_concat rev_map[symmetric])

lemma gitlab_project_twice:
  assumes "gitlab_serves W (project_ID p) 1 pages" "ForkedFromProject p = None"
    and "list_all (compiles L) (OperatingSystems cfg)" "list_all (compiles L) (Utilities cfg)"
  shows "gitlab_scan_projects L W (p # projects) cfg blacklist =
     seq_opt (Some (Line (''Scanning project: '' @ Path p) #
                    gitlab_requests (project_ID p) 1 (Suc (length pages)) @
                    fst (gitlab_ProcessCommits L (rev (concat pages)) cfg blacklist (WebURL p)) @
                    gitlab_requests (project_ID p) 1 (Suc (length pages)) @
                    fst (gitlab_ProcessCommits L (concat pages) cfg blacklist (WebURL p)), Returned))
       (gitlab_scan_projects L W projects cfg blacklist)"
proof -
  have pass: "ScanProjectCommits L W p cfg blacklist ascending =
      Some (gitlab_requests (project_ID p) 1 (Suc (length pages)) @
            fst (gitlab_ProcessCommits L (if ascending then rev (concat pages) else concat pages)
                   cfg blacklist (WebURL p)), Returned)" for ascending
    unfolding ScanProjectCommits_serves[OF assms(1)] gitlab_ProcessCommits_compiled[OF assms(3,4)]
    by (simp add: seq_Returned)
  show ?thesis
    using assms(2) by (simp add: pass seq_opt_Returned option.map_comp comp_def)
qed

lemma seq_opt_done: "seq_opt p (Some ([], Returned)) = p"
proof (cases p)
  case None
  then show ?thesis by (simp add: seq_opt_def)
next
  case (Some a)
  obtain out st where "a = (out, st)" by (cases a)
  with Some show ?thesis by (cases st) (simp_all add: seq_opt_def)
qed

lemma ScanGlobalCommits_loop_undecoded:
  assumes "gh_http W (search_url username order page) = Response body status" "status \<noteq> 200"
  shows "ScanGlobalCommits_loop L (W\<lparr>gh_Unmarshal_search := decode\<rparr>) username cfg blacklist order page out =
         ScanGlobalCommits_loop L W username cfg blacklist order page out"
proof -
  have "ScanGlobalCommits_loop L W' username cfg blacklist order page out =
      (if status = 422
       then Some (out @ [Request (search_url username order page),
                         Line ''Reached 1000-result limit for search API.''], Returned)
       else Some (out @ [Request (search_url username order page),
                         Line (''GitHub API error '' @ Itoa status @ newline @ body)], Returned))"
    if "gh_http W' (search_url username order page) = Response body status" for W'
    using that assms(2) by (subst ScanGlobalCommits_loop.simps) simp
  from this[of W] this[of "W\<lparr>gh_Unmarshal_search := decode\<rparr>"] assms(1) show ?thesis by simp
qed

section \<open>The two passes over a GitLab project\<close>

lemma gitlab_requests_no_finding:
  "count (mset (gitlab_requests projectID page n)) (Finding k lines) = 0"
  by (induction n arbitrary: page) simp_all

lemma gitlab_project_doubles:
  assumes "list_all (compiles L) (OperatingSystems cfg)" "list_all (compiles L) (Utilities cfg)"
  shows "count (mset (Line l #
            gitlab_requests projectID 1 n @
            fst (gitlab_ProcessCommits L (rev commits) cfg blacklist projectURL) @
            gitlab_requests projectID 1 n @
            fst (gitlab_ProcessCommits L commits cfg blacklist projectURL))) (Finding k lines) =
         2 * count (mset (fst (gitlab_ProcessCommits L commits cfg blacklist projectURL))) (Finding k lines)"
  by (simp add: gitlab_pass_mset[OF assms] gitlab_requests_no_finding)

section \<open>The claims\<close>

text \<open>
  C1 (github.go). For a commit, the e-mail findings that \<open>ProcessCommits\<close> prints are, in order,
  one for each of the two identities (author, committer) whose address \<open>IsValidEmail\<close>
  accepts and \<open>IsBlacklisted\<close> does not match, with its address, name, date and location;
  a list of commits that is processed to its end prints them commit after commit. An address
  that is blacklisted is never printed as an e-mail finding, for any list of commits and
  however the run ends. \<open>IsBlacklisted\<close> is true exactly when some expression of the blacklist
  matches the address (its loop returns at the first one that does).
\<close>

theorem github_email_findings:
  "findings_of EmailFinding (fst (github_processCommit L json cfg blacklist c)) =
     map (\<lambda>(name, email). Finding EmailFinding
             [(''Email'', email), (''Name'', name),
              (''Date'', commitDate L (Date (Author (Commit c)))), (''Location'', HTMLURL c)])
        (filter (\<lambda>(name, email). IsValidEmail L email = Some True \<and> \<not> IsBlacklisted L email blacklist)
           (github_identities c)) \<and>
   (snd (github_ProcessCommits L json items cfg blacklist) = Returned \<longrightarrow>
      findings_of EmailFinding (fst (github_ProcessCommits L json items cfg blacklist)) =
        concat (map (\<lambda>c. findings_of EmailFinding (fst (github_processCommit L json cfg blacklist c))) items)) \<and>
   (IsBlacklisted L addr blacklist \<longrightarrow>
      (\<forall>ev\<in>set (fst (github_ProcessCommits L json items cfg blacklist)).
         \<forall>lines. ev \<noteq> Finding EmailFinding ((''Email'', addr) # lines))) \<and>
   IsBlacklisted L addr blacklist = (\<exists>re\<in>set blacklist. MatchString L re addr)"
proof (intro conjI impI ballI allI)
  show "findings_of EmailFinding (fst (github_processCommit L json cfg blacklist c)) =
     map (\<lambda>(name, email). Finding EmailFinding
             [(''Email'', email), (''Name'', name),
              (''Date'', commitDate L (Date (Author (Commit c)))), (''Location'', HTMLURL c)])
        (filter (\<lambda>(name, email). IsValidEmail L email = Some True \<and> \<not> IsBlacklisted L email blacklist)
           (github_identities c))"
    by (rule github_email_part)
next
  assume "snd (github_ProcessCommits L json items cfg blacklist) = Returned"
  then show "findings_of EmailFinding (fst (github_ProcessCommits L json items cfg blacklist)) =
        concat (map (\<lambda>c. findings_of EmailFinding (fst (github_processCommit L json cfg blacklist c))) items)"
    by (simp add: github_ProcessCommits_returned findings_of_concat comp_def)
next
  fix ev lines
  assume listed: "IsBlacklisted L addr blacklist"
    and ev: "ev \<in> set (fst (github_ProcessCommits L json items cfg blacklist))"
  show "ev \<noteq> Finding EmailFinding ((''Email'', addr) # lines)"
  proof
    assume eq: "ev = Finding EmailFinding ((''Email'', addr) # lines)"
    from github_ProcessCommits_events[OF ev]
    obtain c' where "ev \<in> set (fst (github_processCommit L json cfg blacklist c'))" by (elim bexE)
    from github_email_event[OF this eq] listed show False by simp
  qed
next
  show "IsBlacklisted L addr blacklist = (\<exists>re\<in>set blacklist. MatchString L re addr)"
    by (rule IsBlacklisted_iff)
qed

text \<open>
  A commit whose author has a valid address and whose committer address is blacklisted:
  one e-mail finding, for the author.
\<close>

theorem github_email_findings_witness:
  "snd (github_ProcessCommits sample_lib sample_json [sample_commit] sample_config [''noreply'']) = Returned \<and>
   IsBlacklisted sample_lib ''noreply@github.com'' [''noreply''] \<and>
   IsValidEmail sample_lib ''noreply@github.com'' = Some True \<and>
   findings_of EmailFinding
     (fst (github_ProcessCommits sample_lib sample_json [sample_commit] sample_config [''noreply''])) =
     [Finding EmailFinding
        [(''Email'', ''john@sub.example.com''), (''Name'', ''John Doe''),
         (''Date'', ''2024-01-02 03:04:05 UTC''),
         (''Location'', ''https://github.com/octo/demo/commit/4f53'')]]"
proof -
  have ret: "snd (github_ProcessCommits sample_lib sample_json [sample_commit] sample_config [''noreply'']) = Returned"
    by (simp only: github_ProcessCommits_compiled[OF sample_config_compiles] snd_conv)
  have listed: "IsBlacklisted sample_lib ''noreply@github.com'' [''noreply'']"
    by code_simp
  have valid: "IsValidEmail sample_lib ''noreply@github.com'' = Some True"
    by code_simp
  have one: "map (\<lambda>(name, email). Finding EmailFinding
             [(''Email'', email), (''Name'', name),
              (''Date'', commitDate sample_lib (Date (Author (Commit sample_commit)))),
              (''Location'', HTMLURL sample_commit)])
        (filter (\<lambda>(name, email). IsValidEmail sample_lib email = Some True \<and>
                    \<not> IsBlacklisted sample_lib email [''noreply''])
           (github_identities sample_commit)) =
     [Finding EmailFinding
        [(''Email'', ''john@sub.example.com''), (''Name'', ''John Doe''),
         (''Date'', ''2024-01-02 03:04:05 UTC''),
         (''Location'', ''https://github.com/octo/demo/commit/4f53'')]]"
    by code_simp
  note inst = github_email_findings[of sample_lib sample_json sample_config "[''noreply'']"
      sample_commit "[sample_commit]" "''noreply@github.com''"]
  from inst ret have
    "findings_of EmailFinding
       (fst (github_ProcessCommits sample_lib sample_json [sample_commit] sample_config [''noreply''])) =
     concat (map (\<lambda>c. findings_of EmailFinding
        (fst (github_processCommit sample_lib sample_json sample_config [''noreply''] c))) [sample_commit])"
    by (elim conjE) (simp only: simp_thms)
  also have "\<dots> = findings_of EmailFinding
        (fst (github_processCommit sample_lib sample_json sample_config [''noreply''] sample_commit))"
    by simp
  also from inst have "\<dots> = map (\<lambda>(name, email). Finding EmailFinding
             [(''Email'', email), (''Name'', name),
              (''Date'', commitDate sample_lib (Date (Author (Commit sample_commit)))),
              (''Location'', HTMLURL sample_commit)])
        (filter (\<lambda>(name, email). IsValidEmail sample_lib email = Some True \<and>
                    \<not> IsBlacklisted sample_lib email [''noreply''])
           (github_identities sample_commit))"
    by (elim conjE)
  also note one
  finally show ?thesis using ret listed valid by (intro conjI)
qed

text \<open>
  C2. \<open>IsValidEmail\<close> always returns a boolean: the slice \<open>parsed.Address[at+1:]\<close> never panics.
  It returns true exactly when the input contains \<open>@\<close>, \<open>mail.ParseAddress\<close> accepts it, the
  domain (what follows the last \<open>@\<close> of the parsed address) contains a dot, its public suffix
  is not empty and is ICANN-managed, and \<open>url.Parse\<close> accepts \<open>http://\<close> followed by the
  domain. The checks are made in this order in the definition; as none of them has an
  effect, the order cannot be seen in the result.
\<close>

theorem IsValidEmail_iff:
  "IsValidEmail L addr =
     Some (CHR ''@'' \<in> set addr \<and>
       (\<exists>address local domain.
          ParseAddress L addr = Some address \<and>
          address = local @ ''@'' @ domain \<and> CHR ''@'' \<notin> set domain \<and>
          CHR ''.'' \<in> set domain \<and>
          fst (PublicSuffix L domain) \<noteq> '''' \<and> snd (PublicSuffix L domain) \<and>
          url_Parse L (''http://'' @ domain)))"
  by (rule IsValidEmail_result)

text \<open>
  The examples of the specification: \<open>john@sub.example.com\<close> is valid, \<open>bot@localhost\<close> (no
  dot in the domain) and an address without \<open>@\<close> are not.
\<close>

theorem IsValidEmail_iff_witness:
  "IsValidEmail sample_lib ''john@sub.example.com'' = Some True \<and>
   IsValidEmail sample_lib ''bot@localhost'' = Some False \<and>
   IsValidEmail sample_lib ''nobody'' = Some False \<and>
   (\<exists>address local domain.
      ParseAddress sample_lib ''john@sub.example.com'' = Some address \<and>
      address = local @ ''@'' @ domain \<and> CHR ''@'' \<notin> set domain \<and> CHR ''.'' \<in> set domain)"
proof -
  have valid: "IsValidEmail sample_lib ''john@sub.example.com'' = Some True"
    by code_simp
  have "IsValidEmail sample_lib ''bot@localhost'' = Some False"
    by code_simp
  moreover have "IsValidEmail sample_lib ''nobody'' = Some False"
    by code_simp
  moreover have "\<exists>address local domain.
      ParseAddress sample_lib ''john@sub.example.com'' = Some address \<and>
      address = local @ ''@'' @ domain \<and> CHR ''@'' \<notin> set domain \<and> CHR ''.'' \<in> set domain"
  proof -
    from IsValidEmail_iff[of sample_lib "''john@sub.example.com''"]
    have "Some True = Some (CHR ''@'' \<in> set ''john@sub.example.com'' \<and>
       (\<exists>address local domain.
          ParseAddress sample_lib ''john@sub.example.com'' = Some address \<and>
          address = local @ ''@'' @ domain \<and> CHR ''@'' \<notin> set domain \<and>
          CHR ''.'' \<in> set domain \<and>
          fst (PublicSuffix sample_lib domain) \<noteq> [] \<and> snd (PublicSuffix sample_lib domain) \<and>
          url_Parse sample_lib (''http://'' @ domain)))"
      unfolding valid .
    then have "CHR ''@'' \<in> set ''john@sub.example.com'' \<and>
       (\<exists>address local domain.
          ParseAddress sample_lib ''john@sub.example.com'' = Some address \<and>
          address = local @ ''@'' @ domain \<and> CHR ''@'' \<notin> set domain \<and>
          CHR ''.'' \<in> set domain \<and>
          fst (PublicSuffix sample_lib domain) \<noteq> [] \<and> snd (PublicSuffix sample_lib domain) \<and>
          url_Parse sample_lib (''http://'' @ domain))"
      by (simp only: option.inject simp_thms)
    then show ?thesis
      by (elim conjE exE) (intro exI conjI; assumption)
  qed
  ultimately show ?thesis using valid by simp
qed

text \<open>
  C3, as the code has it. The matcher passes the text and each expression unchanged to the
  library. When every expression of the pattern list compiles, \<open>SearchPatterns\<close> returns, in
  the order of the list, the identifier of each pattern whose expression \<open>MatchString\<close> finds
  in the text, once for each such pattern; the identifiers returned are distinct when the
  identifiers of the list are, and the loop of \<open>ProcessCommits\<close> over the result prints one
  finding for each of them (two matching OS patterns and one matching utility pattern give
  two and one). When some expression of the list does not compile, \<open>regexp.MustCompile\<close>
  panics and nothing is returned.
\<close>

theorem SearchPatterns_matching:
  "(list_all (compiles L) patterns \<longrightarrow>
      SearchPatterns L text patterns = Some (map ID (filter (pattern_matches L text) patterns)) \<and>
      (distinct (map ID patterns) \<longrightarrow>
         distinct (map ID (filter (pattern_matches L text) patterns))) \<and>
      signatures L text patterns block =
        (map block (map ID (filter (pattern_matches L text) patterns)), Returned)) \<and>
   (\<not> list_all (compiles L) patterns \<longrightarrow> SearchPatterns L text patterns = None)"
  by (simp add: SearchPatterns_eq signatures_eq distinct_map_filter)

text \<open>
  The example of the specification, with literal expressions: the message
  \<open>Switched to Arch Linux and zsh\<close> against three OS patterns, two of which match, and two
  utility patterns, one of which matches.
\<close>

theorem SearchPatterns_matching_witness:
  "list_all (compiles sample_lib)
     [\<lparr>ID = ''arch'', Regex = ''Arch Linux''\<rparr>, \<lparr>ID = ''debian'', Regex = ''Debian''\<rparr>,
      \<lparr>ID = ''linux'', Regex = ''Linux''\<rparr>] \<and>
   distinct (map ID
     [\<lparr>ID = ''arch'', Regex = ''Arch Linux''\<rparr>, \<lparr>ID = ''debian'', Regex = ''Debian''\<rparr>,
      \<lparr>ID = ''linux'', Regex = ''Linux''\<rparr>]) \<and>
   SearchPatterns sample_lib ''Switched to Arch Linux and zsh''
     [\<lparr>ID = ''arch'', Regex = ''Arch Linux''\<rparr>, \<lparr>ID = ''debian'', Regex = ''Debian''\<rparr>,
      \<lparr>ID = ''linux'', Regex = ''Linux''\<rparr>] = Some [''arch'', ''linux''] \<and>
   SearchPatterns sample_lib ''Switched to Arch Linux and zsh''
     [\<lparr>ID = ''zsh'', Regex = ''zsh''\<rparr>, \<lparr>ID = ''fish'', Regex = ''fish''\<rparr>] = Some [''zsh''] \<and>
   \<not> list_all (compiles sample_lib) [\<lparr>ID = ''arch'', Regex = ''(''\<rparr>] \<and>
   SearchPatterns sample_lib ''Switched to Arch Linux and zsh'' [\<lparr>ID = ''arch'', Regex = ''(''\<rparr>] = None"
proof -
  let ?os = "[\<lparr>ID = ''arch'', Regex = ''Arch Linux''\<rparr>, \<lparr>ID = ''debian'', Regex = ''Debian''\<rparr>,
      \<lparr>ID = ''linux'', Regex = ''Linux''\<rparr>]"
  let ?ut = "[\<lparr>ID = ''zsh'', Regex = ''zsh''\<rparr>, \<lparr>ID = ''fish'', Regex = ''fish''\<rparr>]"
  let ?bad = "[\<lparr>ID = ''arch'', Regex = ''(''\<rparr>]"
  let ?text = "''Switched to Arch Linux and zsh''"
  have c1: "list_all (compiles sample_lib) ?os" by code_simp
  have c2: "list_all (compiles sample_lib) ?ut" by code_simp
  have c3: "\<not> list_all (compiles sample_lib) ?bad" by code_simp
  have d: "distinct (map ID ?os)" by code_simp
  have m1: "map ID (filter (pattern_matches sample_lib ?text) ?os) = [''arch'', ''linux'']"
    by code_simp
  have m2: "map ID (filter (pattern_matches sample_lib ?text) ?ut) = [''zsh'']"
    by code_simp
  from SearchPatterns_matching[of sample_lib ?os ?text Line] c1 m1
  have r1: "SearchPatterns sample_lib ?text ?os = Some [''arch'', ''linux'']"
    by (simp only: simp_thms)
  from SearchPatterns_matching[of sample_lib ?ut ?text Line] c2 m2
  have r2: "SearchPatterns sample_lib ?text ?ut = Some [''zsh'']"
    by (simp only: simp_thms)
  from SearchPatterns_matching[of sample_lib ?bad ?text Line] c3
  have r3: "SearchPatterns sample_lib ?text ?bad = None"
    by (simp only: simp_thms)
  from c1 d r1 r2 c3 r3 show ?thesis by (intro conjI)
qed

text \<open>
  C3 as it is stated fails twice. Two patterns with the same identifier that both match put
  the identifier twice in the result, and a pattern list with an expression that does not
  compile has no result at all.
\<close>

theorem SearchPatterns_counterexample:
  "SearchPatterns sample_lib ''arch linux''
     [\<lparr>ID = ''arch'', Regex = ''arch''\<rparr>, \<lparr>ID = ''arch'', Regex = ''linux''\<rparr>] = Some [''arch'', ''arch''] \<and>
   SearchPatterns sample_lib ''arch linux'' [\<lparr>ID = ''arch'', Regex = ''(''\<rparr>] = None"
  by code_simp

text \<open>
  C4 (gitlab.go, bitbucket.go). gitlab.go gives the signature matcher the title of the commit
  and nothing else: for the commit below the OS expression \<open>Arch Linux\<close> matches the author's
  name and the utility expression \<open>zsh\<close> matches the project URL, and the commit prints its
  e-mail finding only. bitbucket.go, for a commit with the same message and the same author
  in a repository of the same name, searches message, raw author string and repository name
  joined by blanks, and prints both signature findings.
\<close>

theorem gitlab_matcher_text_omits_identity_and_label:
  "Title (sample_gitlab_commit\<lparr>AuthoredDate := ''2024-01-02T03:04:05Z''\<rparr>) = ''Fix typo'' \<and>
   pattern_matches sample_lib
     (AuthorName (sample_gitlab_commit\<lparr>AuthoredDate := ''2024-01-02T03:04:05Z''\<rparr>))
     \<lparr>ID = ''arch'', Regex = ''Arch Linux''\<rparr> \<and>
   pattern_matches sample_lib ''https://gitlab.com/octo/zsh-config'' \<lparr>ID = ''zsh'', Regex = ''zsh''\<rparr> \<and>
   OperatingSystems sample_config =
     [\<lparr>ID = ''arch'', Regex = ''Arch Linux''\<rparr>, \<lparr>ID = ''debian'', Regex = ''Debian''\<rparr>] \<and>
   Utilities sample_config = [\<lparr>ID = ''zsh'', Regex = ''zsh''\<rparr>] \<and>
   gitlab_processCommit sample_lib sample_config [] ''https://gitlab.com/octo/zsh-config''
       (sample_gitlab_commit\<lparr>AuthoredDate := ''2024-01-02T03:04:05Z''\<rparr>) =
     ([Finding EmailFinding
         [(''Email'', ''dev@example.org''), (''Name'', ''Arch Linux user''),
          (''Date'', ''2024-01-02 03:04:05 UTC''),
          (''Project'', ''https://gitlab.com/octo/zsh-config'')]], Returned) \<and>
   bitbucket_commitText
       (sample_bitbucket_commit\<lparr>commit_Date := ''2024-01-02T03:04:05Z'',
                                Author_Raw := ''Arch Linux user <dev@example.org>''\<rparr>) ''zsh-config'' =
     ''Fix typo Arch Linux user <dev@example.org> zsh-config'' \<and>
   bitbucket_processCommit sample_lib sample_config [] ''zsh-config''
       (sample_bitbucket_commit\<lparr>commit_Date := ''2024-01-02T03:04:05Z'',
                                Author_Raw := ''Arch Linux user <dev@example.org>''\<rparr>) =
     ([Finding EmailFinding
         [(''Email'', ''dev@example.org''), (''Name'', ''Arch Linux user''),
          (''Date'', ''2024-01-02 03:04:05 UTC''), (''Repo'', ''zsh-config''),
          (''Location'', ''https://bitbucket.org/octo/demo/commits/77aa'')],
       Finding SystemFinding
         [(''Operating System'', ''arch''), (''Date'', ''2024-01-02 03:04:05 UTC''),
          (''Repo'', ''zsh-config''), (''Location'', ''https://bitbucket.org/octo/demo/commits/77aa'')],
       Finding UtilityFinding
         [(''Utility'', ''zsh''), (''Date'', ''2024-01-02 03:04:05 UTC''),
          (''Repo'', ''zsh-config''), (''Location'', ''https://bitbucket.org/octo/demo/commits/77aa'')]],
      Returned)"
  by code_simp



text \<open>
  C6 (github.go). Wherever in a directional pass the search endpoint answers 422, the pass
  prints the notice of the cap and returns: it neither exits nor reports an error. A pass
  that is served some pages and then a 422 has processed those pages, in order, before.
  Any other status that is not 200 ends the pass with the line of the API error, which shows
  the body; the body is not decoded, whatever decoder is given. \<open>main\<close> goes on after a pass
  that returned: its trace is the headers, the trace of the ascending pass, that of the
  descending pass and then the per-repository pass, each run as it would be alone.
\<close>

theorem search_cap_ends_pass_normally:
  "(gh_http W (search_url username order page) = Response body 422 \<longrightarrow>
      ScanGlobalCommits_loop L W username cfg blacklist order page out =
        Some (out @ [Request (search_url username order page),
                     Line ''Reached 1000-result limit for search API.''], Returned)) \<and>
   (gh_http W (search_url username order page) = Response body status \<and> status \<noteq> 200 \<and> status \<noteq> 422 \<longrightarrow>
      ScanGlobalCommits_loop L W username cfg blacklist order page out =
        Some (out @ [Request (search_url username order page),
                     Line (''GitHub API error '' @ Itoa status @ newline @ body)], Returned) \<and>
      ScanGlobalCommits_loop L (W\<lparr>gh_Unmarshal_search := decode\<rparr>) username cfg blacklist order page out =
        ScanGlobalCommits_loop L W username cfg blacklist order page out) \<and>
   (list_all (compiles L) (OperatingSystems cfg) \<and> list_all (compiles L) (Utilities cfg) \<and>
    search_capped W username (if \<not> ascending then ''desc'' else ''asc'') 1 pages \<longrightarrow>
      ScanGlobalCommits L W username cfg blacklist ascending =
        Some (search_trace L W username (if \<not> ascending then ''desc'' else ''asc'') cfg blacklist 1 pages,
              Returned)) \<and>
   (ScanGlobalCommits L W username cfg blacklist True = Some (out1, Returned) \<and>
    ScanGlobalCommits L W username cfg blacklist False = Some (out2, Returned) \<longrightarrow>
      github_main L W username cfg blacklist =
        seq_opt (Some ([Line (''Scanning commits for user: '' @ username @ newline),
                        Line ''=== First 1000 commits (oldest) ===''] @ out1 @
                       [Line ''=== Last 1000 commits (newest) ===''] @ out2, Returned))
          (github_per_repo_pass L W username cfg blacklist))"
proof (intro conjI impI; (elim conjE)?)
  assume "gh_http W (search_url username order page) = Response body 422"
  then show "ScanGlobalCommits_loop L W username cfg blacklist order page out =
        Some (out @ [Request (search_url username order page),
                     Line ''Reached 1000-result limit for search API.''], Returned)"
    by (rule ScanGlobalCommits_loop_cap)
next
  assume a: "gh_http W (search_url username order page) = Response body status"
    "status \<noteq> 200" "status \<noteq> 422"
  then show "ScanGlobalCommits_loop L W username cfg blacklist order page out =
        Some (out @ [Request (search_url username order page),
                     Line (''GitHub API error '' @ Itoa status @ newline @ body)], Returned)"
    by (rule ScanGlobalCommits_loop_error)
next
  assume a: "gh_http W (search_url username order page) = Response body status"
    "status \<noteq> 200" "status \<noteq> 422"
  from a(1,2) show "ScanGlobalCommits_loop L (W\<lparr>gh_Unmarshal_search := decode\<rparr>) username cfg blacklist order page out =
        ScanGlobalCommits_loop L W username cfg blacklist order page out"
    by (rule ScanGlobalCommits_loop_undecoded)
next
  assume c: "list_all (compiles L) (OperatingSystems cfg)" "list_all (compiles L) (Utilities cfg)"
    and s: "search_capped W username (if \<not> ascending then ''desc'' else ''asc'') 1 pages"
  from ScanGlobalCommits_loop_capped[OF c s, of blacklist "[]"]
  show "ScanGlobalCommits L W username cfg blacklist ascending =
        Some (search_trace L W username (if \<not> ascending then ''desc'' else ''asc'') cfg blacklist 1 pages,
              Returned)"
    by (simp add: ScanGlobalCommits_def)
next
  assume "ScanGlobalCommits L W username cfg blacklist True = Some (out1, Returned)"
    "ScanGlobalCommits L W username cfg blacklist False = Some (out2, Returned)"
  then show "github_main L W username cfg blacklist =
        seq_opt (Some ([Line (''Scanning commits for user: '' @ username @ newline),
                        Line ''=== First 1000 commits (oldest) ===''] @ out1 @
                       [Line ''=== Last 1000 commits (newest) ===''] @ out2, Returned))
          (github_per_repo_pass L W username cfg blacklist)"
    by (rule github_main_passes)
qed

text \<open>
  A server that answers the first ascending search request with 422 and the first
  descending one with 403: both passes return after one request, and \<open>main\<close> goes on to the
  per-repository pass.
\<close>

theorem search_cap_ends_pass_normally_witness:
  "gh_http sample_github_world (search_url ''octo'' ''asc'' 1) =
     Response ''Only the first 1000 search results are available'' 422 \<and>
   search_capped sample_github_world ''octo'' ''asc'' 1 [] \<and>
   list_all (compiles sample_lib) (OperatingSystems sample_config) \<and>
   list_all (compiles sample_lib) (Utilities sample_config) \<and>
   gh_http sample_github_world (search_url ''octo'' ''desc'' 1) = Response ''rate limit exceeded'' 403 \<and>
   ScanGlobalCommits sample_lib sample_github_world ''octo'' sample_config [] True =
     Some ([Request (search_url ''octo'' ''asc'' 1),
            Line ''Reached 1000-result limit for search API.''], Returned) \<and>
   ScanGlobalCommits sample_lib sample_github_world ''octo'' sample_config [] False =
     Some ([Request (search_url ''octo'' ''desc'' 1),
            Line (''GitHub API error 403'' @ newline @ ''rate limit exceeded'')], Returned) \<and>
   github_main sample_lib sample_github_world ''octo'' sample_config [] =
     seq_opt (Some ([Line (''Scanning commits for user: octo'' @ newline),
                     Line ''=== First 1000 commits (oldest) ==='',
                     Request (search_url ''octo'' ''asc'' 1),
                     Line ''Reached 1000-result limit for search API.'',
                     Line ''=== Last 1000 commits (newest) ==='',
                     Request (search_url ''octo'' ''desc'' 1),
                     Line (''GitHub API error 403'' @ newline @ ''rate limit exceeded'')], Returned))
       (github_per_repo_pass sample_lib sample_github_world ''octo'' sample_config [])"
proof -
  have a: "gh_http sample_github_world (search_url ''octo'' ''asc'' 1) =
     Response ''Only the first 1000 search results are available'' 422"
    by code_simp
  have d: "gh_http sample_github_world (search_url ''octo'' ''desc'' 1) = Response ''rate limit exceeded'' 403"
    by code_simp
  have cap: "search_capped sample_github_world ''octo'' ''asc'' 1 []"
    by code_simp
  note c = sample_config_compiles
  have n: "(403 :: int) \<noteq> 200 \<and> (403 :: int) \<noteq> 422" by simp
  have i: "Itoa 403 = ''403''" by code_simp
  from search_cap_ends_pass_normally[of sample_github_world "''octo''" "''asc''" 1
      "''Only the first 1000 search results are available''" sample_lib sample_config "[]" "[]"] a
  have p1: "ScanGlobalCommits sample_lib sample_github_world ''octo'' sample_config [] True =
     Some ([Request (search_url ''octo'' ''asc'' 1),
            Line ''Reached 1000-result limit for search API.''], Returned)"
    by (simp add: ScanGlobalCommits_def)
  from search_cap_ends_pass_normally[of sample_github_world "''octo''" "''desc''" 1
      "''rate limit exceeded''" sample_lib sample_config "[]" "[]" 403] d n
  have p2: "ScanGlobalCommits sample_lib sample_github_world ''octo'' sample_config [] False =
     Some ([Request (search_url ''octo'' ''desc'' 1),
            Line (''GitHub API error 403'' @ newline @ ''rate limit exceeded'')], Returned)"
    by (simp add: ScanGlobalCommits_def i)
  from search_cap_ends_pass_normally[of sample_github_world "''octo''" _ _ _ sample_lib sample_config "[]" _ _ _ _ _
      "[Request (search_url ''octo'' ''asc'' 1), Line ''Reached 1000-result limit for search API.'']"
      "[Request (search_url ''octo'' ''desc'' 1),
        Line (''GitHub API error 403'' @ newline @ ''rate limit exceeded'')]"] p1 p2
  have m: "github_main sample_lib sample_github_world ''octo'' sample_config [] =
     seq_opt (Some ([Line (''Scanning commits for user: octo'' @ newline),
                     Line ''=== First 1000 commits (oldest) ==='',
                     Request (search_url ''octo'' ''asc'' 1),
                     Line ''Reached 1000-result limit for search API.'',
                     Line ''=== Last 1000 commits (newest) ==='',
                     Request (search_url ''octo'' ''desc'' 1),
                     Line (''GitHub API error 403'' @ newline @ ''rate limit exceeded'')], Returned))
       (github_per_repo_pass sample_lib sample_github_world ''octo'' sample_config [])"
    by simp
  from a cap c d p1 p2 m show ?thesis by (intro conjI)
qed

text \<open>
  C7, as the code has it. \<open>parseRawAuthor\<close> never panics. When the string contains both
  \<open><\<close> and \<open>>\<close> (anywhere), the name is the trimmed text before the first \<open><\<close> and the e-mail
  is the text after that \<open><\<close>, with one \<open>>\<close> removed from its end when it ends with one; so
  for a string \<open>name<email>\<close> that ends with its \<open>>\<close> the e-mail is what stands between the
  first \<open><\<close> and that last \<open>>\<close>. When \<open><\<close> or \<open>>\<close> is missing, the whole string, untrimmed, is
  the name and the e-mail is empty.
\<close>

theorem parseRawAuthor_splits:
  "parseRawAuthor L raw =
     Some (if CHR ''<'' \<in> set raw \<and> CHR ''>'' \<in> set raw
           then (TrimSpace L (takeWhile (\<lambda>c. c \<noteq> CHR ''<'') raw),
                 TrimSuffix (tl (dropWhile (\<lambda>c. c \<noteq> CHR ''<'') raw)) ''>'')
           else (raw, '''')) \<and>
   TrimSuffix rest ''>'' = (if rest \<noteq> [] \<and> last rest = CHR ''>'' then butlast rest else rest) \<and>
   (CHR ''<'' \<notin> set name \<longrightarrow>
      parseRawAuthor L (name @ ''<'' @ email @ ''>'') = Some (TrimSpace L name, email))"
proof (intro conjI impI)
  show "parseRawAuthor L raw =
     Some (if CHR ''<'' \<in> set raw \<and> CHR ''>'' \<in> set raw
           then (TrimSpace L (takeWhile (\<lambda>c. c \<noteq> CHR ''<'') raw),
                 TrimSuffix (tl (dropWhile (\<lambda>c. c \<noteq> CHR ''<'') raw)) ''>'')
           else (raw, ''''))"
    by (rule parseRawAuthor_result)
  show "TrimSuffix rest ''>'' = (if rest \<noteq> [] \<and> last rest = CHR ''>'' then butlast rest else rest)"
    by (rule TrimSuffix_single)
  assume name: "CHR ''<'' \<notin> set name"
  have "CHR ''>'' \<in> set (name @ email @ ''>'')" by simp
  from parseRawAuthor_split[OF refl name this, of L]
  show "parseRawAuthor L (name @ ''<'' @ email @ ''>'') = Some (TrimSpace L name, email)"
    by (simp add: TrimSuffix_single)
qed

theorem parseRawAuthor_splits_witness:
  "CHR ''<'' \<notin> set ''John Doe '' \<and>
   parseRawAuthor sample_lib (''John Doe '' @ ''<'' @ ''john@example.com'' @ ''>'') =
     Some (''John Doe'', ''john@example.com'') \<and>
   parseRawAuthor sample_lib ''John Doe'' = Some (''John Doe'', '''') \<and>
   parseRawAuthor sample_lib ''John <john'' = Some (''John <john'', '''')"
proof -
  have n: "CHR ''<'' \<notin> set ''John Doe ''" by simp
  have t: "TrimSpace sample_lib ''John Doe '' = ''John Doe''" by code_simp
  from parseRawAuthor_splits[of sample_lib "''John Doe''" "''''" "''John Doe ''" "''john@example.com''"] n t
  have "parseRawAuthor sample_lib (''John Doe '' @ ''<'' @ ''john@example.com'' @ ''>'') =
     Some (''John Doe'', ''john@example.com'')"
    by (simp only: simp_thms)
  moreover have "parseRawAuthor sample_lib ''John Doe'' = Some (''John Doe'', '''')"
    by code_simp
  moreover have "parseRawAuthor sample_lib ''John <john'' = Some (''John <john'', '''')"
    by code_simp
  ultimately show ?thesis using n by (intro conjI)
qed

text \<open>
  C7 as it is stated fails on a string that goes on after the closing bracket: the e-mail is
  then everything after the first \<open><\<close>, not the text between it and the last \<open>>\<close>.
\<close>

theorem parseRawAuthor_counterexample:
  "parseRawAuthor sample_lib ''John <j@x.io> (work)'' = Some (''John'', ''j@x.io> (work)'')"
  by code_simp

text \<open>
  C8 (github.go, gitlab.go). The loop of \<open>main\<close> over the enumerated repositories (projects)
  skips every fork before anything is fetched for it: the run on a list is the run on the
  list without its forks, every request that the loop issues is a commit request for a
  repository (project) of the list that is not a fork, and a list of one fork and one
  non-fork gives the scan of the non-fork only.
\<close>

theorem forks_are_never_fetched:
  "github_scan_repos L W repos cfg blacklist =
     github_scan_repos L W (filter (\<lambda>r. \<not> Fork r) repos) cfg blacklist \<and>
   (github_scan_repos L W repos cfg blacklist = Some (out, st) \<longrightarrow>
      (\<forall>url. Request url \<in> set out \<longrightarrow>
         (\<exists>r\<in>set repos. \<not> Fork r \<and> (\<exists>page. url = repo_commits_url (FullName r) page)))) \<and>
   (Fork fork \<and> \<not> Fork repo \<longrightarrow>
      github_scan_repos L W [fork, repo] cfg blacklist =
        seq_opt (Some ([Line (''Scanning repo: '' @ FullName repo)], Returned))
          (ScanRepoCommits L W (FullName repo) cfg blacklist)) \<and>
   gitlab_scan_projects L W' projects cfg blacklist =
     gitlab_scan_projects L W' (filter (\<lambda>p. ForkedFromProject p = None) projects) cfg blacklist \<and>
   (gitlab_scan_projects L W' projects cfg blacklist = Some (out', st') \<longrightarrow>
      (\<forall>url. Request url \<in> set out' \<longrightarrow>
         (\<exists>p\<in>set projects. ForkedFromProject p = None \<and>
            (\<exists>page. url = project_commits_url (project_ID p) page)))) \<and>
   (ForkedFromProject forked \<noteq> None \<and> ForkedFromProject project = None \<longrightarrow>
      gitlab_scan_projects L W' [forked, project] cfg blacklist =
        seq_opt (Some ([Line (''Scanning project: '' @ Path project)], Returned))
          (seq_opt (ScanProjectCommits L W' project cfg blacklist True)
                   (ScanProjectCommits L W' project cfg blacklist False)))"
proof (intro conjI impI allI; (elim conjE)?)
  show "github_scan_repos L W repos cfg blacklist =
     github_scan_repos L W (filter (\<lambda>r. \<not> Fork r) repos) cfg blacklist"
    by (rule github_scan_repos_filter)
next
  fix url
  assume "github_scan_repos L W repos cfg blacklist = Some (out, st)" "Request url \<in> set out"
  then show "\<exists>r\<in>set repos. \<not> Fork r \<and> (\<exists>page. url = repo_commits_url (FullName r) page)"
    by (rule github_scan_repos_requests)
next
  assume "Fork fork" "\<not> Fork repo"
  then show "github_scan_repos L W [fork, repo] cfg blacklist =
        seq_opt (Some ([Line (''Scanning repo: '' @ FullName repo)], Returned))
          (ScanRepoCommits L W (FullName repo) cfg blacklist)"
    by (simp add: seq_opt_done)
next
  show "gitlab_scan_projects L W' projects cfg blacklist =
     gitlab_scan_projects L W' (filter (\<lambda>p. ForkedFromProject p = None) projects) cfg blacklist"
    by (rule gitlab_scan_projects_filter)
next
  fix url
  assume "gitlab_scan_projects L W' projects cfg blacklist = Some (out', st')" "Request url \<in> set out'"
  then show "\<exists>p\<in>set projects. ForkedFromProject p = None \<and>
            (\<exists>page. url = project_commits_url (project_ID p) page)"
    by (rule gitlab_scan_projects_requests)
next
  assume "ForkedFromProject forked \<noteq> None" "ForkedFromProject project = None"
  then show "gitlab_scan_projects L W' [forked, project] cfg blacklist =
        seq_opt (Some ([Line (''Scanning project: '' @ Path project)], Returned))
          (seq_opt (ScanProjectCommits L W' project cfg blacklist True)
                   (ScanProjectCommits L W' project cfg blacklist False))"
    by (simp add: seq_opt_done)
qed

text \<open>
  The fork \<open>octo/copy\<close> and the repository \<open>octo/demo\<close>: the commits of \<open>octo/demo\<close> are
  requested, page 1 and page 2, and nothing is requested for \<open>octo/copy\<close>. The same for the
  GitLab project 7 and the fork 8.
\<close>

theorem forks_are_never_fetched_witness:
  "Fork (sample_repos ! 0) \<and> \<not> Fork (sample_repos ! 1) \<and>
   github_scan_repos sample_lib sample_github_world sample_repos sample_config [] =
     Some (Line ''Scanning repo: octo/demo'' #
           repo_trace sample_lib sample_github_world ''octo/demo'' sample_config [] 1 [[sample_commit]],
           Returned) \<and>
   Request (repo_commits_url ''octo/demo'' 1) \<in>
     set (Line ''Scanning repo: octo/demo'' #
          repo_trace sample_lib sample_github_world ''octo/demo'' sample_config [] 1 [[sample_commit]]) \<and>
   Request (repo_commits_url ''octo/copy'' 1) \<notin>
     set (Line ''Scanning repo: octo/demo'' #
          repo_trace sample_lib sample_github_world ''octo/demo'' sample_config [] 1 [[sample_commit]]) \<and>
   ForkedFromProject sample_fork \<noteq> None \<and> ForkedFromProject sample_project = None \<and>
   gitlab_scan_projects sample_lib sample_gitlab_world [sample_fork, sample_project] sample_config [] =
     seq_opt (Some ([Line ''Scanning project: octo/demo''], Returned))
       (seq_opt (ScanProjectCommits sample_lib sample_gitlab_world sample_project sample_config [] True)
                (ScanProjectCommits sample_lib sample_gitlab_world sample_project sample_config [] False))"
proof -
  let ?out = "Line ''Scanning repo: octo/demo'' #
          repo_trace sample_lib sample_github_world ''octo/demo'' sample_config [] 1 [[sample_commit]]"
  have f: "Fork (sample_repos ! 0)" "\<not> Fork (sample_repos ! 1)"
    by (simp_all add: sample_repos_def)
  have repos: "sample_repos = [sample_repos ! 0, sample_repos ! 1]"
    by (simp add: sample_repos_def)
  have name: "FullName (sample_repos ! 1) = ''octo/demo''"
    by (simp add: sample_repos_def)
  have serves: "repo_serves sample_github_world ''octo/demo'' 1 [[sample_commit]]"
    by code_simp
  have scan: "ScanRepoCommits sample_lib sample_github_world ''octo/demo'' sample_config [] =
      Some (repo_trace sample_lib sample_github_world ''octo/demo'' sample_config [] 1 [[sample_commit]], Returned)"
    using ScanRepoCommits_loop_serves[OF sample_config_compiles serves, of "[]" "[]"]
    by (simp add: ScanRepoCommits_def)
  note inst = forks_are_never_fetched[of sample_lib sample_github_world sample_repos sample_config "[]"
      ?out Returned "sample_repos ! 0" "sample_repos ! 1"
      sample_gitlab_world "[sample_fork, sample_project]" "[]" Returned sample_fork sample_project]
  note pair = inst[THEN conjunct2, THEN conjunct2, THEN conjunct1, rule_format]
    and only = inst[THEN conjunct2, THEN conjunct1, rule_format]
    and gpair = inst[THEN conjunct2, THEN conjunct2, THEN conjunct2, THEN conjunct2, THEN conjunct2, rule_format]
  from f have "github_scan_repos sample_lib sample_github_world [sample_repos ! 0, sample_repos ! 1] sample_config [] =
        seq_opt (Some ([Line (''Scanning repo: '' @ FullName (sample_repos ! 1))], Returned))
          (ScanRepoCommits sample_lib sample_github_world (FullName (sample_repos ! 1)) sample_config [])"
    by (intro pair conjI)
  then have run: "github_scan_repos sample_lib sample_github_world sample_repos sample_config [] = Some (?out, Returned)"
    unfolding repos[symmetric] name scan by (simp add: seq_opt_Some)
  have there: "Request (repo_commits_url ''octo/demo'' 1) \<in> set ?out"
    by simp
  have "Request (repo_commits_url ''octo/copy'' 1) \<notin> set ?out"
  proof
    assume "Request (repo_commits_url ''octo/copy'' 1) \<in> set ?out"
    with run
    have "\<exists>r\<in>set sample_repos. \<not> Fork r \<and> (\<exists>page. repo_commits_url ''octo/copy'' 1 = repo_commits_url (FullName r) page)"
      by (rule only)
    then obtain page where "repo_commits_url ''octo/copy'' 1 = repo_commits_url ''octo/demo'' page"
      by (auto simp: sample_repos_def)
    then show False by (simp add: repo_commits_url_def)
  qed
  moreover have g: "ForkedFromProject sample_fork \<noteq> None" "ForkedFromProject sample_project = None"
    by (simp_all add: sample_fork_def sample_project_def)
  moreover have path: "Path sample_project = ''octo/demo''" by (simp add: sample_project_def)
  moreover from g
  have "gitlab_scan_projects sample_lib sample_gitlab_world [sample_fork, sample_project] sample_config [] =
     seq_opt (Some ([Line (''Scanning project: '' @ Path sample_project)], Returned))
       (seq_opt (ScanProjectCommits sample_lib sample_gitlab_world sample_project sample_config [] True)
                (ScanProjectCommits sample_lib sample_gitlab_world sample_project sample_config [] False))"
    by (intro gpair conjI)
  ultimately show ?thesis using f run there by (simp only: path append.simps simp_thms)
qed

text \<open>
  C9 (gitlab.go). For a project that is not a fork, \<open>main\<close> runs \<open>ScanProjectCommits\<close> twice,
  ascending and then descending. Against a server that answers the page requests of the
  project the same way each time, and with signature expressions that compile, each pass
  requests every page again and returns; the ascending pass processes the whole history
  reversed, the descending pass processes it as served; the two passes print the same
  findings, as multisets; and every finding occurs in the trace of the project exactly twice
  as often as in the trace of one pass.
\<close>

theorem gitlab_project_scanned_twice:
  assumes "gitlab_serves W (project_ID p) 1 pages"
    and "ForkedFromProject p = None"
    and "list_all (compiles L) (OperatingSystems cfg)"
    and "list_all (compiles L) (Utilities cfg)"
  shows "ScanProjectCommits L W p cfg blacklist True =
           Some (gitlab_requests (project_ID p) 1 (Suc (length pages)) @
                 fst (gitlab_ProcessCommits L (rev (concat pages)) cfg blacklist (WebURL p)), Returned) \<and>
         ScanProjectCommits L W p cfg blacklist False =
           Some (gitlab_requests (project_ID p) 1 (Suc (length pages)) @
                 fst (gitlab_ProcessCommits L (concat pages) cfg blacklist (WebURL p)), Returned) \<and>
         gitlab_scan_projects L W (p # projects) cfg blacklist =
           seq_opt (Some (Line (''Scanning project: '' @ Path p) #
                          gitlab_requests (project_ID p) 1 (Suc (length pages)) @
                          fst (gitlab_ProcessCommits L (rev (concat pages)) cfg blacklist (WebURL p)) @
                          gitlab_requests (project_ID p) 1 (Suc (length pages)) @
                          fst (gitlab_ProcessCommits L (concat pages) cfg blacklist (WebURL p)), Returned))
             (gitlab_scan_projects L W projects cfg blacklist) \<and>
         fst (gitlab_ProcessCommits L (rev (concat pages)) cfg blacklist (WebURL p)) =
           concat (map (\<lambda>c. fst (gitlab_processCommit L cfg blacklist (WebURL p) c)) (rev (concat pages))) \<and>
         fst (gitlab_ProcessCommits L (concat pages) cfg blacklist (WebURL p)) =
           concat (map (\<lambda>c. fst (gitlab_processCommit L cfg blacklist (WebURL p) c)) (concat pages)) \<and>
         mset (fst (gitlab_ProcessCommits L (rev (concat pages)) cfg blacklist (WebURL p))) =
           mset (fst (gitlab_ProcessCommits L (concat pages) cfg blacklist (WebURL p))) \<and>
         count (mset (Line (''Scanning project: '' @ Path p) #
                      gitlab_requests (project_ID p) 1 (Suc (length pages)) @
                      fst (gitlab_ProcessCommits L (rev (concat pages)) cfg blacklist (WebURL p)) @
                      gitlab_requests (project_ID p) 1 (Suc (length pages)) @
                      fst (gitlab_ProcessCommits L (concat pages) cfg blacklist (WebURL p))))
               (Finding k lines) =
           2 * count (mset (fst (gitlab_ProcessCommits L (concat pages) cfg blacklist (WebURL p))))
                 (Finding k lines)"
proof (intro conjI)
  have pass: "ScanProjectCommits L W p cfg blacklist ascending =
      Some (gitlab_requests (project_ID p) 1 (Suc (length pages)) @
            fst (gitlab_ProcessCommits L (if ascending then rev (concat pages) else concat pages)
                   cfg blacklist (WebURL p)), Returned)" for ascending
    unfolding ScanProjectCommits_serves[OF assms(1)] gitlab_ProcessCommits_compiled[OF assms(3,4)]
    by (simp add: seq_Returned)
  from pass[of True]
  show "ScanProjectCommits L W p cfg blacklist True =
           Some (gitlab_requests (project_ID p) 1 (Suc (length pages)) @
                 fst (gitlab_ProcessCommits L (rev (concat pages)) cfg blacklist (WebURL p)), Returned)"
    by simp
  from pass[of False]
  show "ScanProjectCommits L W p cfg blacklist False =
           Some (gitlab_requests (project_ID p) 1 (Suc (length pages)) @
                 fst (gitlab_ProcessCommits L (concat pages) cfg blacklist (WebURL p)), Returned)"
    by simp
  show "gitlab_scan_projects L W (p # projects) cfg blacklist =
           seq_opt (Some (Line (''Scanning project: '' @ Path p) #
                          gitlab_requests (project_ID p) 1 (Suc (length pages)) @
                          fst (gitlab_ProcessCommits L (rev (concat pages)) cfg blacklist (WebURL p)) @
                          gitlab_requests (project_ID p) 1 (Suc (length pages)) @
                          fst (gitlab_ProcessCommits L (concat pages) cfg blacklist (WebURL p)), Returned))
             (gitlab_scan_projects L W projects cfg blacklist)"
    by (rule gitlab_project_twice[OF assms])
  show "fst (gitlab_ProcessCommits L (rev (concat pages)) cfg blacklist (WebURL p)) =
           concat (map (\<lambda>c. fst (gitlab_processCommit L cfg blacklist (WebURL p) c)) (rev (concat pages)))"
    by (simp only: gitlab_ProcessCommits_compiled[OF assms(3,4)] fst_conv)
  show "fst (gitlab_ProcessCommits L (concat pages) cfg blacklist (WebURL p)) =
           concat (map (\<lambda>c. fst (gitlab_processCommit L cfg blacklist (WebURL p) c)) (concat pages))"
    by (simp only: gitlab_ProcessCommits_compiled[OF assms(3,4)] fst_conv)
  show "mset (fst (gitlab_ProcessCommits L (rev (concat pages)) cfg blacklist (WebURL p))) =
           mset (fst (gitlab_ProcessCommits L (concat pages) cfg blacklist (WebURL p)))"
    by (rule gitlab_pass_mset[OF assms(3,4)])
  show "count (mset (Line (''Scanning project: '' @ Path p) #
                      gitlab_requests (project_ID p) 1 (Suc (length pages)) @
                      fst (gitlab_ProcessCommits L (rev (concat pages)) cfg blacklist (WebURL p)) @
                      gitlab_requests (project_ID p) 1 (Suc (length pages)) @
                      fst (gitlab_ProcessCommits L (concat pages) cfg blacklist (WebURL p))))
               (Finding k lines) =
           2 * count (mset (fst (gitlab_ProcessCommits L (concat pages) cfg blacklist (WebURL p))))
                 (Finding k lines)"
    by (rule gitlab_project_doubles[OF assms(3,4)])
qed

text \<open>
  The project 7, served in two pages and an empty one: three requests and five findings in
  each pass, in opposite orders of the commits. The OS finding of the second commit is
  printed twice in the run; the e-mail finding, which the three commits share, six times,
  three times in each pass.
\<close>

theorem gitlab_project_scanned_twice_witness:
  "gitlab_serves sample_gitlab_world (project_ID sample_project) 1 sample_gitlab_pages \<and>
   ForkedFromProject sample_project = None \<and>
   list_all (compiles sample_lib) (OperatingSystems sample_config) \<and>
   list_all (compiles sample_lib) (Utilities sample_config) \<and>
   fst (gitlab_ProcessCommits sample_lib (concat sample_gitlab_pages) sample_config []
          ''https://gitlab.com/octo/demo'') =
     [Finding EmailFinding
        [(''Email'', ''dev@example.org''), (''Name'', ''Arch Linux user''), (''Date'', ''yesterday''),
         (''Project'', ''https://gitlab.com/octo/demo'')],
      Finding EmailFinding
        [(''Email'', ''dev@example.org''), (''Name'', ''Arch Linux user''), (''Date'', ''yesterday''),
         (''Project'', ''https://gitlab.com/octo/demo'')],
      Finding SystemFinding
        [(''Operating System'', ''arch''), (''Committer'', ''Arch Linux user <dev@example.org>''),
         (''Date'', ''yesterday''), (''Project'', ''https://gitlab.com/octo/demo'')],
      Finding EmailFinding
        [(''Email'', ''dev@example.org''), (''Name'', ''Arch Linux user''), (''Date'', ''yesterday''),
         (''Project'', ''https://gitlab.com/octo/demo'')],
      Finding UtilityFinding
        [(''Utility'', ''zsh''), (''Committer'', ''Arch Linux user <dev@example.org>''),
         (''Date'', ''yesterday''), (''Project'', ''https://gitlab.com/octo/demo'')]] \<and>
   gitlab_scan_projects sample_lib sample_gitlab_world [sample_project] sample_config [] =
     Some (Line ''Scanning project: octo/demo'' #
           gitlab_requests 7 1 3 @
           fst (gitlab_ProcessCommits sample_lib (rev (concat sample_gitlab_pages)) sample_config []
                  ''https://gitlab.com/octo/demo'') @
           gitlab_requests 7 1 3 @
           fst (gitlab_ProcessCommits sample_lib (concat sample_gitlab_pages) sample_config []
                  ''https://gitlab.com/octo/demo''), Returned) \<and>
   count (mset (Line ''Scanning project: octo/demo'' #
           gitlab_requests 7 1 3 @
           fst (gitlab_ProcessCommits sample_lib (rev (concat sample_gitlab_pages)) sample_config []
                  ''https://gitlab.com/octo/demo'') @
           gitlab_requests 7 1 3 @
           fst (gitlab_ProcessCommits sample_lib (concat sample_gitlab_pages) sample_config []
                  ''https://gitlab.com/octo/demo'')))
     (Finding SystemFinding
        [(''Operating System'', ''arch''), (''Committer'', ''Arch Linux user <dev@example.org>''),
         (''Date'', ''yesterday''), (''Project'', ''https://gitlab.com/octo/demo'')]) = 2 \<and>
   count (mset (Line ''Scanning project: octo/demo'' #
           gitlab_requests 7 1 3 @
           fst (gitlab_ProcessCommits sample_lib (rev (concat sample_gitlab_pages)) sample_config []
                  ''https://gitlab.com/octo/demo'') @
           gitlab_requests 7 1 3 @
           fst (gitlab_ProcessCommits sample_lib (concat sample_gitlab_pages) sample_config []
                  ''https://gitlab.com/octo/demo'')))
     (Finding EmailFinding
        [(''Email'', ''dev@example.org''), (''Name'', ''Arch Linux user''), (''Date'', ''yesterday''),
         (''Project'', ''https://gitlab.com/octo/demo'')]) = 6"
proof -
  let ?os = "Finding SystemFinding
        [(''Operating System'', ''arch''), (''Committer'', ''Arch Linux user <dev@example.org>''),
         (''Date'', ''yesterday''), (''Project'', ''https://gitlab.com/octo/demo'')]"
  let ?em = "Finding EmailFinding
        [(''Email'', ''dev@example.org''), (''Name'', ''Arch Linux user''), (''Date'', ''yesterday''),
         (''Project'', ''https://gitlab.com/octo/demo'')]"
  let ?ut = "Finding UtilityFinding
        [(''Utility'', ''zsh''), (''Committer'', ''Arch Linux user <dev@example.org>''),
         (''Date'', ''yesterday''), (''Project'', ''https://gitlab.com/octo/demo'')]"
  have g: "gitlab_serves sample_gitlab_world (project_ID sample_project) 1 sample_gitlab_pages"
    by code_simp
  have nf: "ForkedFromProject sample_project = None"
    by (simp add: sample_project_def)
  note c = sample_config_compiles
  have id: "project_ID sample_project = 7" "WebURL sample_project = ''https://gitlab.com/octo/demo''"
    "Path sample_project = ''octo/demo''"
    by (simp_all add: sample_project_def)
  have len: "Suc (length sample_gitlab_pages) = 3"
    by (simp add: sample_gitlab_pages_def)
  have desc: "fst (gitlab_ProcessCommits sample_lib (concat sample_gitlab_pages) sample_config []
          ''https://gitlab.com/octo/demo'') = [?em, ?em, ?os, ?em, ?ut]"
    by code_simp
  note inst = gitlab_project_scanned_twice[OF g nf c, of "[]" "[]", unfolded id len append.simps]
  note run = inst[THEN conjunct2, THEN conjunct2, THEN conjunct1]
  have scan: "gitlab_scan_projects sample_lib sample_gitlab_world [sample_project] sample_config [] =
     Some (Line ''Scanning project: octo/demo'' #
           gitlab_requests 7 1 3 @
           fst (gitlab_ProcessCommits sample_lib (rev (concat sample_gitlab_pages)) sample_config []
                  ''https://gitlab.com/octo/demo'') @
           gitlab_requests 7 1 3 @
           fst (gitlab_ProcessCommits sample_lib (concat sample_gitlab_pages) sample_config []
                  ''https://gitlab.com/octo/demo''), Returned)"
    unfolding run by (simp add: seq_opt_Some)
  note twice = inst[THEN conjunct2, THEN conjunct2, THEN conjunct2, THEN conjunct2, THEN conjunct2,
      THEN conjunct2]
  have n1: "count (mset [?em, ?em, ?os, ?em, ?ut]) ?os = 1" by simp
  have n3: "count (mset [?em, ?em, ?os, ?em, ?ut]) ?em = 3" by simp
  have os2: "count (mset (Line ''Scanning project: octo/demo'' #
           gitlab_requests 7 1 3 @
           fst (gitlab_ProcessCommits sample_lib (rev (concat sample_gitlab_pages)) sample_config []
                  ''https://gitlab.com/octo/demo'') @
           gitlab_requests 7 1 3 @
           fst (gitlab_ProcessCommits sample_lib (concat sample_gitlab_pages) sample_config []
                  ''https://gitlab.com/octo/demo''))) ?os = 2"
    unfolding twice[of SystemFinding] unfolding desc n1 by simp
  have em6: "count (mset (Line ''Scanning project: octo/demo'' #
           gitlab_requests 7 1 3 @
           fst (gitlab_ProcessCommits sample_lib (rev (concat sample_gitlab_pages)) sample_config []
                  ''https://gitlab.com/octo/demo'') @
           gitlab_requests 7 1 3 @
           fst (gitlab_ProcessCommits sample_lib (concat sample_gitlab_pages) sample_config []
                  ''https://gitlab.com/octo/demo''))) ?em = 6"
    unfolding twice[of EmailFinding] unfolding desc n3 by simp
  from g nf c desc scan os2 em6 show ?thesis by (intro conjI)
qed

text \<open>
  C9 as it is stated fails when a signature expression does not compile. With the OS
  expression \<open>(\<close> the ascending pass of project 7 fetches the three pages, prints the e-mail
  finding of the first commit it processes and panics in \<open>regexp.MustCompile\<close>: the history
  is fetched once, there is no descending pass, and the finding is printed once.
\<close>

theorem gitlab_project_scanned_twice_counterexample:
  "gitlab_serves sample_gitlab_world (project_ID sample_project) 1 sample_gitlab_pages \<and>
   ForkedFromProject sample_project = None \<and>
   gitlab_scan_projects sample_lib sample_gitlab_world [sample_project]
       (sample_config\<lparr>OperatingSystems := [\<lparr>ID = ''bad'', Regex = ''(''\<rparr>]\<rparr>) [] =
     Some ([Line ''Scanning project: octo/demo'',
            Request (project_commits_url 7 1), Request (project_commits_url 7 2),
            Request (project_commits_url 7 3),
            Finding EmailFinding
              [(''Email'', ''dev@example.org''), (''Name'', ''Arch Linux user''), (''Date'', ''yesterday''),
               (''Project'', ''https://gitlab.com/octo/demo'')]], Panicked) \<and>
   count (mset [Line ''Scanning project: octo/demo'',
            Request (project_commits_url 7 1), Request (project_commits_url 7 2),
            Request (project_commits_url 7 3),
            Finding EmailFinding
              [(''Email'', ''dev@example.org''), (''Name'', ''Arch Linux user''), (''Date'', ''yesterday''),
               (''Project'', ''https://gitlab.com/octo/demo'')]])
     (Finding EmailFinding
        [(''Email'', ''dev@example.org''), (''Name'', ''Arch Linux user''), (''Date'', ''yesterday''),
         (''Project'', ''https://gitlab.com/octo/demo'')]) = 1"
proof -
  let ?bad = "sample_config\<lparr>OperatingSystems := [\<lparr>ID = ''bad'', Regex = ''(''\<rparr>]\<rparr>"
  let ?em = "Finding EmailFinding
        [(''Email'', ''dev@example.org''), (''Name'', ''Arch Linux user''), (''Date'', ''yesterday''),
         (''Project'', ''https://gitlab.com/octo/demo'')]"
  have g: "gitlab_serves sample_gitlab_world (project_ID sample_project) 1 sample_gitlab_pages"
    by code_simp
  have nf: "ForkedFromProject sample_project = None"
    by (simp add: sample_project_def)
  have id: "project_ID sample_project = 7" "WebURL sample_project = ''https://gitlab.com/octo/demo''"
    "Path sample_project = ''octo/demo''"
    by (simp_all add: sample_project_def)
  have greq: "gitlab_requests 7 1 (Suc (length sample_gitlab_pages)) =
      [Request (project_commits_url 7 1), Request (project_commits_url 7 2), Request (project_commits_url 7 3)]"
    by code_simp
  have asc: "gitlab_ProcessCommits sample_lib (rev (concat sample_gitlab_pages)) ?bad []
      ''https://gitlab.com/octo/demo'' = ([?em], Panicked)"
    by code_simp
  have pass: "ScanProjectCommits sample_lib sample_gitlab_world sample_project ?bad [] True =
      Some ([Request (project_commits_url 7 1), Request (project_commits_url 7 2),
             Request (project_commits_url 7 3), ?em], Panicked)"
    unfolding ScanProjectCommits_serves[OF g] if_True id greq asc by (simp add: seq_def)
  have run: "gitlab_scan_projects sample_lib sample_gitlab_world [sample_project] ?bad [] =
     Some ([Line ''Scanning project: octo/demo'',
            Request (project_commits_url 7 1), Request (project_commits_url 7 2),
            Request (project_commits_url 7 3), ?em], Panicked)"
    by (simp add: nf id pass seq_opt_def)
  have once: "count (mset [Line ''Scanning project: octo/demo'',
            Request (project_commits_url 7 1), Request (project_commits_url 7 2),
            Request (project_commits_url 7 3), ?em]) ?em = 1"
    by simp
  from g nf run once show ?thesis by (intro conjI)
qed

text \<open>
  C10 (bitbucket.go). \<open>IsValidEmail\<close> returns false for the empty string. For a commit whose
  raw author string lacks \<open><\<close> or lacks \<open>>\<close> (in particular one with no angle bracket at
  all) the parsed e-mail is empty and no e-mail finding is printed for the commit, whatever
  the blacklist; its signature findings are those the matcher returns on the composed text,
  as for any other commit.
\<close>

theorem no_email_finding_without_brackets:
  "IsValidEmail L '''' = Some False \<and>
   (\<not> (CHR ''<'' \<in> set (Author_Raw c) \<and> CHR ''>'' \<in> set (Author_Raw c)) \<longrightarrow>
      parseRawAuthor L (Author_Raw c) = Some (Author_Raw c, '''') \<and>
      findings_of EmailFinding (fst (bitbucket_processCommit L cfg blacklist repoName c)) = [] \<and>
      map finding_value (findings_of SystemFinding (fst (bitbucket_processCommit L cfg blacklist repoName c))) =
        matched L (bitbucket_commitText c repoName) (OperatingSystems cfg))"
proof (intro conjI impI)
  show "IsValidEmail L '''' = Some False" by (rule IsValidEmail_empty)
next
  assume "\<not> (CHR ''<'' \<in> set (Author_Raw c) \<and> CHR ''>'' \<in> set (Author_Raw c))"
  then show p: "parseRawAuthor L (Author_Raw c) = Some (Author_Raw c, '''')"
    by (rule parseRawAuthor_whole)
  show "findings_of EmailFinding (fst (bitbucket_processCommit L cfg blacklist repoName c)) = []"
    unfolding bitbucket_email_part[OF p] by (simp add: IsValidEmail_empty)
next
  show "map finding_value (findings_of SystemFinding (fst (bitbucket_processCommit L cfg blacklist repoName c))) =
        matched L (bitbucket_commitText c repoName) (OperatingSystems cfg)"
    by (rule bitbucket_signature_ids)
qed

text \<open>A commit by \<open>Arch Linux user\<close>, without brackets: no e-mail finding, one OS finding.\<close>

theorem no_email_finding_without_brackets_witness:
  "\<not> (CHR ''<'' \<in> set (Author_Raw sample_bitbucket_commit) \<and> CHR ''>'' \<in> set (Author_Raw sample_bitbucket_commit)) \<and>
   findings_of EmailFinding
     (fst (bitbucket_processCommit sample_lib sample_config [] ''demo'' sample_bitbucket_commit)) = [] \<and>
   map finding_value (findings_of SystemFinding
     (fst (bitbucket_processCommit sample_lib sample_config [] ''demo'' sample_bitbucket_commit))) = [''arch'']"
proof -
  have nb: "\<not> (CHR ''<'' \<in> set (Author_Raw sample_bitbucket_commit) \<and>
                CHR ''>'' \<in> set (Author_Raw sample_bitbucket_commit))"
    by code_simp
  have os: "matched sample_lib (bitbucket_commitText sample_bitbucket_commit ''demo'')
      (OperatingSystems sample_config) = [''arch'']"
    by code_simp
  from no_email_finding_without_brackets[of sample_lib sample_bitbucket_commit sample_config "[]" "''demo''"] nb
  have "findings_of EmailFinding
     (fst (bitbucket_processCommit sample_lib sample_config [] ''demo'' sample_bitbucket_commit)) = [] \<and>
   map finding_value (findings_of SystemFinding
     (fst (bitbucket_processCommit sample_lib sample_config [] ''demo'' sample_bitbucket_commit))) =
        matched sample_lib (bitbucket_commitText sample_bitbucket_commit ''demo'') (OperatingSystems sample_config)"
    by (elim conjE impE) (assumption, intro conjI, assumption+)
  with nb os show ?thesis by (simp only: simp_thms)
qed

end
